theory Spec2Isabelle
  imports Main "HOL-Library.Char_ord" "HOL-Library.List_Lexorder" "HOL-Library.Multiset"
    "HOL-Library.Sublist"
begin

section \<open>The content loader of the blog: posts and the about page\<close>

text \<open>
  The loader consists of two modules, \<^verbatim>\<open>lib/posts\<close> (\<^verbatim>\<open>getSortedPostsData\<close>,
  \<^verbatim>\<open>getAllPostIds\<close>, \<^verbatim>\<open>getPostData\<close>) and \<^verbatim>\<open>lib/about\<close> (\<^verbatim>\<open>getAboutPageData\<close>).
  They read markdown files with Node's \<^verbatim>\<open>fs\<close>, split the front matter off with
  \<^verbatim>\<open>gray-matter\<close> and render the body with \<^verbatim>\<open>remark\<close>.

  What the modules do themselves is embedded function by function. What they call is
  handled as follows.
  \<^item> The file system is a value: a partial map from paths to nodes, read by
    \<open>readFileSync\<close> and \<open>readdirSync\<close>, which fail the way Node does. It has no permissions,
    no links and no limit on the length of a name. The map need not be a tree: a node is
    found at its path whatever the map says about the paths above it, except that a regular
    file above it stops the walk.
  \<^item> \<^verbatim>\<open>path.join\<close> is Node's POSIX join, modelled on path segments.
  \<^item> \<^verbatim>\<open>matter(text)\<close>, called without options as the loader does, goes through the cache
    that \<^verbatim>\<open>gray-matter\<close> keeps for the life of the process. The cache is the state of the
    model: every operation that parses front matter takes it and returns it. What
    \<^verbatim>\<open>gray-matter\<close> does on a miss (its \<^verbatim>\<open>parseMatter\<close>), \<^verbatim>\<open>remark\<close> and the working
    directory are parameters, collected in the record \<open>env\<close>. The parser and the renderer
    may throw, so they return a sum.
  \<^item> \<^verbatim>\<open>Array.prototype.sort\<close> is an insertion sort driven by the sign of the comparator.
  \<^item> An exception (and a rejected promise) is the \<open>Inl\<close> of a sum.
\<close>

subsection \<open>Paths\<close>

type_synonym path = string

fun split_on :: "char \<Rightarrow> string \<Rightarrow> string list" where
  "split_on c [] = [[]]"
| "split_on c (x # xs) =
     (if x = c then [] # split_on c xs
      else (case split_on c xs of [] \<Rightarrow> [[x]] | s # ss \<Rightarrow> (x # s) # ss))"

fun join_segments :: "string list \<Rightarrow> string" where
  "join_segments [] = []"
| "join_segments [s] = s"
| "join_segments (s # t # ss) = s @ ''/'' @ join_segments (t # ss)"

text \<open>
  Node's \<^verbatim>\<open>normalizeString\<close>: empty segments and \<^verbatim>\<open>.\<close> vanish, \<^verbatim>\<open>..\<close> removes the
  segment before it; where there is none (or it is itself \<^verbatim>\<open>..\<close>), \<^verbatim>\<open>..\<close> is kept for a
  relative path and dropped for an absolute one. The second argument is the result so far,
  last segment first.
\<close>

fun normalize_segments :: "bool \<Rightarrow> string list \<Rightarrow> string list \<Rightarrow> string list" where
  "normalize_segments allowAboveRoot res [] = rev res"
| "normalize_segments allowAboveRoot res (seg # segs) =
     (if seg = [] \<or> seg = ''.'' then normalize_segments allowAboveRoot res segs
      else if seg = ''..'' then
        (case res of
           [] \<Rightarrow> normalize_segments allowAboveRoot (if allowAboveRoot then [''..''] else []) segs
         | l # rest \<Rightarrow>
             if l = ''..''
             then normalize_segments allowAboveRoot (if allowAboveRoot then ''..'' # res else res) segs
             else normalize_segments allowAboveRoot rest segs)
      else normalize_segments allowAboveRoot (seg # res) segs)"

definition normalize :: "path \<Rightarrow> path" where
  "normalize p =
     (if p = [] then ''.''
      else
        let isAbsolute = (hd p = CHR ''/'');
            trailingSeparator = (last p = CHR ''/'');
            q = join_segments (normalize_segments (\<not> isAbsolute) [] (split_on CHR ''/'' p))
        in if q = [] then (if isAbsolute then ''/'' else if trailingSeparator then ''./'' else ''.'')
           else
             let q' = (if trailingSeparator then q @ ''/'' else q)
             in if isAbsolute then CHR ''/'' # q' else q')"

text \<open>\<^verbatim>\<open>path.join(a, b)\<close>: the non-empty arguments joined by a slash, then normalised.\<close>

definition path_join :: "path \<Rightarrow> path \<Rightarrow> path" where
  "path_join a b =
     (if a = [] \<and> b = [] then ''.''
      else normalize (if a = [] then b else if b = [] then a else a @ ''/'' @ b))"

subsection \<open>The file system and the errors of a read\<close>

datatype node = File string | Dir "string list"

type_synonym filesystem = "path \<rightharpoonup> node"

datatype errno = ENOENT | EISDIR | ENOTDIR

datatype error =
    FsError errno path
  | InvalidArgValue path
  | MatterError string
  | RemarkError string

text \<open>
  The paths above \<open>p\<close>: what stands before each separator of \<open>p\<close>. Resolving \<open>p\<close> walks
  through them, and fails with \<^verbatim>\<open>ENOTDIR\<close> if one of them is a regular file.
\<close>

fun parents_from :: "path \<Rightarrow> path \<Rightarrow> path list" where
  "parents_from pre [] = []"
| "parents_from pre (c # cs) =
     (if c = CHR ''/'' \<and> pre \<noteq> [] then [pre] else []) @ parents_from (pre @ [c]) cs"

definition parents :: "path \<Rightarrow> path list" where
  "parents p = parents_from [] p"

definition is_file :: "filesystem \<Rightarrow> path \<Rightarrow> bool" where
  "is_file fs p = (case fs p of Some (File txt) \<Rightarrow> True | _ \<Rightarrow> False)"

text \<open>
  Node refuses a path that contains a null byte (\<^verbatim>\<open>ERR_INVALID_ARG_VALUE\<close>) before it asks
  the system. The system answers \<^verbatim>\<open>ENOTDIR\<close> if a parent is a regular file and \<^verbatim>\<open>ENOENT\<close>
  if nothing is there.
\<close>

definition resolve :: "filesystem \<Rightarrow> path \<Rightarrow> error + node" where
  "resolve fs p =
     (if CHR 0x00 \<in> set p then Inl (InvalidArgValue p)
      else if list_ex (is_file fs) (parents p) then Inl (FsError ENOTDIR p)
      else (case fs p of None \<Rightarrow> Inl (FsError ENOENT p) | Some n \<Rightarrow> Inr n))"

text \<open>\<^verbatim>\<open>fs.readFileSync(p, "utf8")\<close> and \<^verbatim>\<open>fs.readdirSync(p)\<close>.\<close>

definition readFileSync :: "filesystem \<Rightarrow> path \<Rightarrow> error + string" where
  "readFileSync fs p =
     (case resolve fs p of
        Inl err \<Rightarrow> Inl err
      | Inr (Dir names) \<Rightarrow> Inl (FsError EISDIR p)
      | Inr (File txt) \<Rightarrow> Inr txt)"

definition readdirSync :: "filesystem \<Rightarrow> path \<Rightarrow> error + string list" where
  "readdirSync fs p =
     (case resolve fs p of
        Inl err \<Rightarrow> Inl err
      | Inr (File txt) \<Rightarrow> Inl (FsError ENOTDIR p)
      | Inr (Dir names) \<Rightarrow> Inr names)"

subsection \<open>Objects, front matter and the renderer\<close>

text \<open>
  A JavaScript object is a map from keys to values; a key that is absent reads as
  \<^verbatim>\<open>undefined\<close>, here \<open>None\<close>. Values are strings: the fields the loader and the pages use
  (\<^verbatim>\<open>id\<close>, \<^verbatim>\<open>contentHtml\<close>, \<^verbatim>\<open>title\<close>, \<^verbatim>\<open>date\<close>, \<^verbatim>\<open>description\<close>) are strings. A string is a
  list of 8-bit characters compared by code, which is JavaScript's comparison by code unit
  on that alphabet.
\<close>

type_synonym jsobject = "string \<rightharpoonup> string"

record matter_result =
  data :: jsobject
  content :: string

record html_options =
  sanitize :: bool

text \<open>
  A plugin handed to \<^verbatim>\<open>remark().use\<close>: \<^verbatim>\<open>html\<close> with its options object, if one is
  given, or \<^verbatim>\<open>prism\<close>.
\<close>

datatype plugin = Html "html_options option" | Prism

record env =
  cwd :: path
  parseMatter :: "string \<Rightarrow> string + matter_result"
  remark :: "plugin list \<Rightarrow> string \<Rightarrow> string + string"

text \<open>
  \<^verbatim>\<open>matter(input)\<close> of \<^verbatim>\<open>gray-matter\<close>, called without options. The empty text is answered at
  once. Otherwise the text is looked up in \<^verbatim>\<open>matter.cache\<close>; a file found there is
  returned as it is. On a miss the file, still unparsed (no data, the whole text as content),
  is put into the cache and then parsed in place: if the parser throws, the unparsed file
  stays in the cache, and the next call with the same text returns it instead of failing.

  The cache is a plain object, so a text that is the name of a property every object
  inherits finds that property; the copy made of it has neither data nor content, which
  the loader reads as no fields and renders as the empty text.

  Both modules import the same \<^verbatim>\<open>gray-matter\<close>, so there is one cache. A text here has no
  byte order mark (it is not an 8-bit character), which \<^verbatim>\<open>gray-matter\<close> would strip before
  the lookup.
\<close>

type_synonym matter_cache = "string \<rightharpoonup> matter_result"

definition object_prototype_keys :: "string list" where
  "object_prototype_keys =
     [''constructor'', ''__defineGetter__'', ''__defineSetter__'', ''hasOwnProperty'',
      ''__lookupGetter__'', ''__lookupSetter__'', ''isPrototypeOf'', ''propertyIsEnumerable'',
      ''toString'', ''valueOf'', ''__proto__'', ''toLocaleString'']"

definition matter ::
  "env \<Rightarrow> string \<Rightarrow> matter_cache \<Rightarrow> (error + matter_result) \<times> matter_cache" where
  "matter e input cache =
     (if input = [] then (Inr \<lparr>data = Map.empty, content = input\<rparr>, cache)
      else if input \<in> set object_prototype_keys
      then (Inr \<lparr>data = Map.empty, content = []\<rparr>, cache)
      else
        (case cache input of
           Some cached \<Rightarrow> (Inr cached, cache)
         | None \<Rightarrow>
             (case parseMatter e input of
                Inl msg \<Rightarrow>
                  (Inl (MatterError msg), cache(input \<mapsto> \<lparr>data = Map.empty, content = input\<rparr>))
              | Inr parsed \<Rightarrow> (Inr parsed, cache(input \<mapsto> parsed)))))"

text \<open>
  What a cache may hold for a text: what \<open>matter\<close> puts there on a miss, the parsed file or,
  if the parser throws, the unparsed one. A cache is sound if it holds nothing else, and it
  grows out of another cache if it keeps what that one holds and adds nothing else.
\<close>

definition entry_of :: "env \<Rightarrow> string \<Rightarrow> matter_result \<Rightarrow> bool" where
  "entry_of e t f =
     (parseMatter e t = Inr f
      \<or> ((\<exists>msg. parseMatter e t = Inl msg) \<and> f = \<lparr>data = Map.empty, content = t\<rparr>))"

definition cache_ok :: "env \<Rightarrow> matter_cache \<Rightarrow> bool" where
  "cache_ok e c = (\<forall>t f. c t = Some f \<longrightarrow> entry_of e t f)"

definition grows :: "env \<Rightarrow> matter_cache \<Rightarrow> matter_cache \<Rightarrow> bool" where
  "grows e c c' =
     (\<forall>t. (\<forall>f. c t = Some f \<longrightarrow> c' t = Some f)
          \<and> (\<forall>f. c t = None \<longrightarrow> c' t = Some f \<longrightarrow> entry_of e t f))"

definition call_remark :: "env \<Rightarrow> plugin list \<Rightarrow> string \<Rightarrow> error + string" where
  "call_remark e ps body =
     (case remark e ps body of Inl msg \<Rightarrow> Inl (RemarkError msg) | Inr h \<Rightarrow> Inr h)"

text \<open>
  The object literal \<^verbatim>\<open>{ k1, k2, ...src }\<close>: the fields written first, then every field
  of \<open>src\<close>, a later field replacing an earlier one of the same key.
\<close>

definition spread :: "jsobject \<Rightarrow> jsobject \<Rightarrow> jsobject" where
  "spread own src = own ++ src"

subsection \<open>The language's own operations\<close>

text \<open>\<^verbatim>\<open>fileName.replace(/\.md$/, "")\<close>: a final \<^verbatim>\<open>.md\<close> is removed, nothing else.\<close>

definition ends_with_md :: "string \<Rightarrow> bool" where
  "ends_with_md s = (3 \<le> length s \<and> drop (length s - 3) s = ''.md'')"

definition strip_md :: "string \<Rightarrow> string" where
  "strip_md s = (if ends_with_md s then take (length s - 3) s else s)"

text \<open>\<^verbatim>\<open>x < y\<close> on two field values: false as soon as one of them is \<^verbatim>\<open>undefined\<close>.\<close>

definition js_lt :: "string option \<Rightarrow> string option \<Rightarrow> bool" where
  "js_lt x y = (case (x, y) of (Some a, Some b) \<Rightarrow> a < b | _ \<Rightarrow> False)"

definition js_ge :: "string option \<Rightarrow> string option \<Rightarrow> bool" where
  "js_ge x y = (case (x, y) of (Some a, Some b) \<Rightarrow> b \<le> a | _ \<Rightarrow> False)"

text \<open>
  \<^verbatim>\<open>xs.map(f)\<close> with a callback that may throw and that works on a state: the elements
  are visited in order, the state is handed on, and the first exception ends the call.
\<close>

fun array_map ::
  "('a \<Rightarrow> 's \<Rightarrow> (error + 'b) \<times> 's) \<Rightarrow> 'a list \<Rightarrow> 's \<Rightarrow> (error + 'b list) \<times> 's" where
  "array_map f [] s = (Inr [], s)"
| "array_map f (x # xs) s =
     (case f x s of
        (Inl err, s') \<Rightarrow> (Inl err, s')
      | (Inr y, s') \<Rightarrow>
          (case array_map f xs s' of
             (Inl err, s'') \<Rightarrow> (Inl err, s'')
           | (Inr ys, s'') \<Rightarrow> (Inr (y # ys), s'')))"

text \<open>
  \<^verbatim>\<open>xs.sort(cmp)\<close>: each element in turn is inserted into the sorted part before the
  first element that \<open>cmp\<close> puts after it (a negative result).
\<close>

fun insert_by :: "('a \<Rightarrow> 'a \<Rightarrow> int) \<Rightarrow> 'a \<Rightarrow> 'a list \<Rightarrow> 'a list" where
  "insert_by cmp x [] = [x]"
| "insert_by cmp x (y # ys) = (if cmp x y < 0 then x # y # ys else y # insert_by cmp x ys)"

definition array_sort :: "('a \<Rightarrow> 'a \<Rightarrow> int) \<Rightarrow> 'a list \<Rightarrow> 'a list" where
  "array_sort cmp xs = foldl (\<lambda>acc x. insert_by cmp x acc) [] xs"

subsection \<open>Module \<^verbatim>\<open>lib/posts\<close>\<close>

definition postsDirectory :: "env \<Rightarrow> path" where
  "postsDirectory e = path_join (cwd e) ''posts''"

text \<open>The callback of \<^verbatim>\<open>fileNames.map\<close> in \<^verbatim>\<open>getSortedPostsData\<close>.\<close>

definition post_summary ::
  "env \<Rightarrow> filesystem \<Rightarrow> string \<Rightarrow> matter_cache \<Rightarrow> (error + jsobject) \<times> matter_cache" where
  "post_summary e fs fileName cache =
     (let pid = strip_md fileName;
          fullPath = path_join (postsDirectory e) fileName
      in case readFileSync fs fullPath of
           Inl err \<Rightarrow> (Inl err, cache)
         | Inr fileContents \<Rightarrow>
             (case matter e fileContents cache of
                (Inl err, cache') \<Rightarrow> (Inl err, cache')
              | (Inr matterResult, cache') \<Rightarrow>
                  (Inr (spread [''id'' \<mapsto> pid] (data matterResult)), cache')))"

text \<open>The comparator of the sort: \<^verbatim>\<open>a.date < b.date ? 1 : -1\<close>.\<close>

definition compare_date :: "jsobject \<Rightarrow> jsobject \<Rightarrow> int" where
  "compare_date a b = (if js_lt (a ''date'') (b ''date'') then 1 else - 1)"

definition getSortedPostsData ::
  "env \<Rightarrow> filesystem \<Rightarrow> matter_cache \<Rightarrow> (error + jsobject list) \<times> matter_cache" where
  "getSortedPostsData e fs cache =
     (case readdirSync fs (postsDirectory e) of
        Inl err \<Rightarrow> (Inl err, cache)
      | Inr fileNames \<Rightarrow>
          (case array_map (post_summary e fs) fileNames cache of
             (Inl err, cache') \<Rightarrow> (Inl err, cache')
           | (Inr allPostsData, cache') \<Rightarrow> (Inr (array_sort compare_date allPostsData), cache')))"

record params =
  id' :: string

record static_path =
  params :: params

definition getAllPostIds :: "env \<Rightarrow> filesystem \<Rightarrow> error + static_path list" where
  "getAllPostIds e fs =
     (case readdirSync fs (postsDirectory e) of
        Inl err \<Rightarrow> Inl err
      | Inr fileNames \<Rightarrow>
          Inr (map (\<lambda>fileName. \<lparr>params = \<lparr>id' = strip_md fileName\<rparr>\<rparr>) fileNames))"

definition getPostData ::
  "env \<Rightarrow> filesystem \<Rightarrow> string \<Rightarrow> matter_cache \<Rightarrow> (error + jsobject) \<times> matter_cache" where
  "getPostData e fs pid cache =
     (let fullPath = path_join (postsDirectory e) (pid @ ''.md'')
      in case readFileSync fs fullPath of
           Inl err \<Rightarrow> (Inl err, cache)
         | Inr fileContents \<Rightarrow>
             (case matter e fileContents cache of
                (Inl err, cache') \<Rightarrow> (Inl err, cache')
              | (Inr matterResult, cache') \<Rightarrow>
                  (case call_remark e [Html (Some \<lparr>sanitize = False\<rparr>), Prism]
                          (content matterResult) of
                     Inl err \<Rightarrow> (Inl err, cache')
                   | Inr contentHtml \<Rightarrow>
                       (Inr (spread [''id'' \<mapsto> pid, ''contentHtml'' \<mapsto> contentHtml]
                               (data matterResult)), cache'))))"

subsection \<open>Module \<^verbatim>\<open>lib/about\<close>\<close>

definition aboutPageDirectory :: "env \<Rightarrow> path" where
  "aboutPageDirectory e = path_join (cwd e) ''about''"

definition getAboutPageData ::
  "env \<Rightarrow> filesystem \<Rightarrow> matter_cache \<Rightarrow> (error + jsobject) \<times> matter_cache" where
  "getAboutPageData e fs cache =
     (let fullPath = path_join (aboutPageDirectory e) ''about.md''
      in case readFileSync fs fullPath of
           Inl err \<Rightarrow> (Inl err, cache)
         | Inr fileContents \<Rightarrow>
             (case matter e fileContents cache of
                (Inl err, cache') \<Rightarrow> (Inl err, cache')
              | (Inr matterResult, cache') \<Rightarrow>
                  (case call_remark e [Html None] (content matterResult) of
                     Inl err \<Rightarrow> (Inl err, cache')
                   | Inr contentHtml \<Rightarrow>
                       (Inr (spread [''contentHtml'' \<mapsto> contentHtml] (data matterResult)),
                        cache'))))"

subsection \<open>A reference instance of the libraries and a small site\<close>

text \<open>
  To run the loader, the parser and the renderer need an instance.

  The parser follows \<^verbatim>\<open>gray-matter\<close>: a text that does not start with \<^verbatim>\<open>---\<close>, or starts with
  \<^verbatim>\<open>----\<close>, has no metadata and is all content; otherwise the block runs up to the first line
  that starts with \<^verbatim>\<open>---\<close>, and the content is what follows that fence, less one line
  break. For the block it reads a fragment of YAML: lines \<^verbatim>\<open>key: value\<close> with distinct keys,
  a value being a plain scalar that \<^verbatim>\<open>js-yaml\<close> reads as a string (it starts with a letter,
  consists of letters, digits, spaces, hyphens and underscores, and is not one of the words
  for a truth value or null) or a double-quoted scalar without escapes. On a block with a
  quote that is never closed and on a key that comes twice it throws a \<^verbatim>\<open>YAMLException\<close>,
  as \<^verbatim>\<open>js-yaml\<close> does. Any other block outside the fragment it refuses with the message
  \<^verbatim>\<open>outside the fragment\<close>, which says nothing about \<^verbatim>\<open>js-yaml\<close>: a date or a number written
  without quotes, for one, is not a string and has no place among the values here. It
  refuses in the same way a text whose opening fence is followed by anything on its line,
  which \<^verbatim>\<open>gray-matter\<close> takes for the name of a language.

  The renderer works line by line: a heading, a line of raw HTML, or a paragraph. As in
  \<^verbatim>\<open>remark-html\<close>, raw HTML is dropped unless the options say \<^verbatim>\<open>sanitize: false\<close>, and
  without the \<^verbatim>\<open>html\<close> plugin there is no compiler.
\<close>

definition nl :: char where
  "nl = CHR 0x0A"

definition cr :: char where
  "cr = CHR 0x0D"

definition dq :: char where
  "dq = CHR 0x22"

definition split_lines :: "string \<Rightarrow> string list" where
  "split_lines s = split_on nl s"

fun join_lines :: "string list \<Rightarrow> string" where
  "join_lines [] = []"
| "join_lines [l] = l"
| "join_lines (l # k # ls) = l @ [nl] @ join_lines (k # ls)"

definition is_letter :: "char \<Rightarrow> bool" where
  "is_letter c = ((CHR ''a'' \<le> c \<and> c \<le> CHR ''z'') \<or> (CHR ''A'' \<le> c \<and> c \<le> CHR ''Z''))"

definition is_plain_char :: "char \<Rightarrow> bool" where
  "is_plain_char c =
     (is_letter c \<or> (CHR ''0'' \<le> c \<and> c \<le> CHR ''9'') \<or> c = CHR '' '' \<or> c = CHR ''-'' \<or> c = CHR ''_'')"

definition yaml_words :: "string list" where
  "yaml_words =
     [''true'', ''True'', ''TRUE'', ''false'', ''False'', ''FALSE'', ''null'', ''Null'', ''NULL'']"

definition plain_scalar :: "string \<Rightarrow> bool" where
  "plain_scalar v =
     (v \<noteq> [] \<and> is_letter (hd v) \<and> list_all is_plain_char v \<and> last v \<noteq> CHR '' ''
      \<and> v \<notin> set yaml_words)"

text \<open>
  A value of the fragment: a plain scalar, or a double-quoted one, which loses its quotes.
  A value that opens a double quote and has no second one is set apart: if no later line
  of the block has a double quote either, \<^verbatim>\<open>js-yaml\<close> runs into the end of the block and
  throws.
\<close>

datatype yaml_value = Scalar string | Open_quote | Outside

definition yaml_string :: "string \<Rightarrow> yaml_value" where
  "yaml_string v =
     (if plain_scalar v then Scalar v
      else if 2 \<le> length v \<and> hd v = dq \<and> last v = dq
              \<and> list_all (\<lambda>c. CHR '' '' \<le> c \<and> c \<le> CHR ''~'' \<and> c \<noteq> dq \<and> c \<noteq> CHR 0x5C)
                    (butlast (tl v))
      then Scalar (butlast (tl v))
      else if v \<noteq> [] \<and> hd v = dq \<and> dq \<notin> set (tl v) then Open_quote
      else Outside)"

definition yaml_field :: "string \<Rightarrow> string option \<times> yaml_value" where
  "yaml_field l =
     (let k = takeWhile (\<lambda>c. c \<noteq> CHR '':'') l;
          after = dropWhile (\<lambda>c. c \<noteq> CHR '':'') l
      in if plain_scalar k \<and> take 2 after = '': ''
         then (Some k, yaml_string (dropWhile (\<lambda>c. c = CHR '' '') (drop 2 after)))
         else (None, Outside))"

text \<open>
  The block, line by line. A key that comes twice and a quote that is never closed are
  errors of \<^verbatim>\<open>js-yaml\<close>; whatever else the fragment does not cover is refused under a message
  of its own.
\<close>

fun yaml_block :: "string list \<Rightarrow> jsobject \<Rightarrow> string + jsobject" where
  "yaml_block [] acc = Inr acc"
| "yaml_block (l # ls) acc =
     (if l = [] then yaml_block ls acc
      else (case yaml_field l of
              (Some k, Scalar v) \<Rightarrow>
                if acc k = None then yaml_block ls (acc(k \<mapsto> v)) else Inl ''YAMLException''
            | (Some k, Open_quote) \<Rightarrow>
                if list_ex (\<lambda>later. dq \<in> set later) ls then Inl ''outside the fragment''
                else Inl ''YAMLException''
            | _ \<Rightarrow> Inl ''outside the fragment''))"

definition strip_line_break :: "string \<Rightarrow> string" where
  "strip_line_break s =
     (let t = (if take 1 s = [cr] then drop 1 s else s)
      in if take 1 t = [nl] then drop 1 t else t)"

definition ref_matter :: "string \<Rightarrow> string + matter_result" where
  "ref_matter input =
     (if take 3 input \<noteq> ''---'' \<or> take 1 (drop 3 input) = ''-''
      then Inr \<lparr>data = Map.empty, content = input\<rparr>
      else
        (case split_lines (drop 3 input) of
           [] \<Rightarrow> Inl ''outside the fragment''
         | language # ls \<Rightarrow>
             if language \<noteq> [] then Inl ''outside the fragment''
             else
               (case yaml_block (takeWhile (\<lambda>l. take 3 l \<noteq> ''---'') ls) Map.empty of
                  Inl msg \<Rightarrow> Inl msg
                | Inr d \<Rightarrow>
                    Inr \<lparr>data = d,
                         content =
                           (case dropWhile (\<lambda>l. take 3 l \<noteq> ''---'') ls of
                              [] \<Rightarrow> []
                            | fence # after \<Rightarrow>
                                strip_line_break (join_lines (drop 3 fence # after)))\<rparr>)))"

definition html_sanitizes :: "html_options option \<Rightarrow> bool" where
  "html_sanitizes opts = (case opts of None \<Rightarrow> True | Some os \<Rightarrow> sanitize os)"

definition render_block :: "bool \<Rightarrow> string \<Rightarrow> string" where
  "render_block safe l =
     (if l = [] then []
      else if take 2 l = ''# '' then ''<h1>'' @ drop 2 l @ ''</h1>'' @ [nl]
      else if hd l = CHR ''<'' then (if safe then [] else l @ [nl])
      else ''<p>'' @ l @ ''</p>'' @ [nl])"

fun html_plugin :: "plugin list \<Rightarrow> html_options option option" where
  "html_plugin [] = None"
| "html_plugin (Html opts # ps) = Some opts"
| "html_plugin (Prism # ps) = html_plugin ps"

definition ref_remark :: "plugin list \<Rightarrow> string \<Rightarrow> string + string" where
  "ref_remark ps body =
     (case html_plugin ps of
        None \<Rightarrow> Inl ''Cannot process without Compiler''
      | Some opts \<Rightarrow> Inr (concat (map (render_block (html_sanitizes opts)) (split_lines body))))"

definition ref_env :: env where
  "ref_env = \<lparr>cwd = ''/site'', parseMatter = ref_matter, remark = ref_remark\<rparr>"

text \<open>The text of a post, with the date in double quotes as the posts of the blog have it.\<close>

definition post_text :: "string \<Rightarrow> string \<Rightarrow> string \<Rightarrow> string" where
  "post_text t d body =
     join_lines [''---'', ''title: '' @ t, ''date: '' @ [dq] @ d @ [dq], ''---'', body]"

text \<open>A site with three posts, listed out of date order, and an about page with raw HTML.\<close>

definition blog_fs :: filesystem where
  "blog_fs =
     [''/site'' \<mapsto> Dir [''about'', ''posts''],
      ''/site/posts'' \<mapsto> Dir [''first.md'', ''third.md'', ''second.md''],
      ''/site/posts/first.md'' \<mapsto> File (post_text ''T'' ''2024-01-01'' ''# Hi''),
      ''/site/posts/third.md'' \<mapsto> File (post_text ''Third'' ''2024-03-01'' ''Some text''),
      ''/site/posts/second.md'' \<mapsto> File (post_text ''Second'' ''2024-02-01'' ''<div>raw</div>''),
      ''/site/about'' \<mapsto> Dir [''about.md''],
      ''/site/about/about.md'' \<mapsto>
        File (join_lines [''---'', ''title: About'', ''---'', ''<div>raw</div>''])]"

text \<open>Reading one field of a result, for statements about concrete runs.\<close>

definition field :: "string \<Rightarrow> error + jsobject \<Rightarrow> error + string option" where
  "field k res = (case res of Inl err \<Rightarrow> Inl err | Inr r \<Rightarrow> Inr (r k))"

text \<open>The identifiers of a result and one field of every record of a result, in order.\<close>

definition ids_of :: "error + static_path list \<Rightarrow> error + string list" where
  "ids_of res = (case res of Inl err \<Rightarrow> Inl err | Inr ps \<Rightarrow> Inr (map (\<lambda>p. id' (params p)) ps))"

definition column :: "string \<Rightarrow> error + jsobject list \<Rightarrow> error + string option list" where
  "column k res = (case res of Inl err \<Rightarrow> Inl err | Inr rs \<Rightarrow> Inr (map (\<lambda>r. r k) rs))"

text \<open>A posts directory holding a file and a markdown file of the same stem.\<close>

definition stem_clash_fs :: filesystem where
  "stem_clash_fs =
     [''/site'' \<mapsto> Dir [''posts''],
      ''/site/posts'' \<mapsto> Dir [''a'', ''a.md''],
      ''/site/posts/a'' \<mapsto> File ''plain text'',
      ''/site/posts/a.md'' \<mapsto> File (post_text ''A'' ''2024-01-01'' ''# A'')]"

text \<open>
  A posts directory with a file that is not markdown and a post whose front matter declares
  \<^verbatim>\<open>id\<close> and \<^verbatim>\<open>contentHtml\<close> itself; the about page declares \<^verbatim>\<open>contentHtml\<close> too.
\<close>

definition own_id_text :: string where
  "own_id_text =
     join_lines [''---'', ''id: other'', ''contentHtml: mine'',
                 ''date: '' @ [dq] @ ''2024-05-05'' @ [dq], ''---'', ''Body'']"

definition stray_fs :: filesystem where
  "stray_fs =
     [''/site'' \<mapsto> Dir [''about'', ''posts''],
      ''/site/posts'' \<mapsto> Dir [''notes.txt'', ''own-id.md''],
      ''/site/posts/notes.txt'' \<mapsto> File ''to do'',
      ''/site/posts/own-id.md'' \<mapsto> File own_id_text,
      ''/site/about'' \<mapsto> Dir [''about.md''],
      ''/site/about/about.md'' \<mapsto>
        File (join_lines [''---'', ''contentHtml: mine'', ''---'', ''Body''])]"

text \<open>A post whose front matter opens a double quote and never closes it.\<close>

definition broken_text :: string where
  "broken_text = join_lines [''---'', ''title: '' @ [dq] @ ''T'', ''---'', ''Body'']"



text \<open>A renderer that throws whenever it is called.\<close>

definition failing_remark :: "plugin list \<Rightarrow> string \<Rightarrow> string + string" where
  "failing_remark ps body = Inl ''renderer called''"

text \<open>A renderer that supports one list of plugins only and throws on every other.\<close>

definition pinned_remark :: "plugin list \<Rightarrow> plugin list \<Rightarrow> string \<Rightarrow> string + string" where
  "pinned_remark cfg ps body = (if ps = cfg then ref_remark ps body else Inl ''unsupported'')"


section \<open>Properties\<close>

lemmas run_defs = getAllPostIds_def getPostData_def getAboutPageData_def getSortedPostsData_def
  post_summary_def readdirSync_def readFileSync_def resolve_def parents_def is_file_def
  postsDirectory_def aboutPageDirectory_def
  path_join_def normalize_def matter_def object_prototype_keys_def call_remark_def
  ref_env_def ref_matter_def yaml_field_def yaml_string_def plain_scalar_def yaml_words_def
  is_plain_char_def is_letter_def strip_line_break_def
  ref_remark_def split_lines_def render_block_def html_sanitizes_def nl_def cr_def dq_def
  post_text_def own_id_text_def broken_text_def
  ids_of_def field_def column_def spread_def strip_md_def ends_with_md_def array_sort_def
  compare_date_def js_lt_def

subsection \<open>Facts about the language operations\<close>

lemma ends_with_md_append [simp]: "ends_with_md (s @ ''.md'')"
  by (simp add: ends_with_md_def)

lemma strip_md_append [simp]: "strip_md (s @ ''.md'') = s"
  by (simp add: strip_md_def)

lemma strip_md_restore: "ends_with_md s \<Longrightarrow> strip_md s @ ''.md'' = s"
proof -
  assume h: "ends_with_md s"
  then have "take (length s - 3) s @ drop (length s - 3) s = s" by simp
  with h show ?thesis by (simp add: strip_md_def ends_with_md_def)
qed

lemma strip_md_other: "\<not> ends_with_md s \<Longrightarrow> strip_md s = s"
  by (simp add: strip_md_def)

lemma strip_md_collide:
  assumes "strip_md a = strip_md b" and "a \<noteq> b"
  shows "(\<not> ends_with_md a \<and> b = a @ ''.md'') \<or> (\<not> ends_with_md b \<and> a = b @ ''.md'')"
proof (cases "ends_with_md a")
  case a: True
  show ?thesis
  proof (cases "ends_with_md b")
    case True
    with a assms show ?thesis by (metis strip_md_restore)
  next
    case False
    with a assms show ?thesis by (metis strip_md_restore strip_md_other)
  qed
next
  case a: False
  show ?thesis
  proof (cases "ends_with_md b")
    case True
    with a assms show ?thesis by (metis strip_md_restore strip_md_other)
  next
    case False
    with a assms show ?thesis by (simp add: strip_md_other)
  qed
qed

lemma distinct_strip_md:
  assumes "distinct names"
    and "\<forall>n \<in> set names. \<not> ends_with_md n \<longrightarrow> n @ ''.md'' \<notin> set names"
  shows "distinct (map strip_md names)"
proof -
  have "inj_on strip_md (set names)"
  proof (rule inj_onI)
    fix a b
    assume "a \<in> set names" "b \<in> set names" "strip_md a = strip_md b"
    with assms(2) strip_md_collide [of a b] show "a = b" by blast
  qed
  with assms(1) show ?thesis by (simp add: distinct_map)
qed

subsection \<open>Sorting\<close>

lemma spread_id_date: "spread [''id'' \<mapsto> p] d ''date'' = d ''date''"
  by (cases "d ''date''") (simp_all add: spread_def map_add_def)

lemma mset_insert_by: "mset (insert_by cmp x xs) = add_mset x (mset xs)"
  by (induction xs) auto

lemma mset_foldl_insert_by:
  "mset (foldl (\<lambda>acc x. insert_by cmp x acc) acc xs) = mset acc + mset xs"
  by (induction xs arbitrary: acc) (auto simp: mset_insert_by)

lemma mset_array_sort: "mset (array_sort cmp xs) = mset xs"
  by (simp add: array_sort_def mset_foldl_insert_by)

lemma set_array_sort: "set (array_sort cmp xs) = set xs"
  by (metis mset_array_sort set_mset_mset)

lemma set_insert_by: "set (insert_by cmp x xs) = insert x (set xs)"
  by (metis mset_insert_by set_mset_mset set_mset_add_mset_insert)

lemma compare_date_neg:
  "a ''date'' \<noteq> None \<Longrightarrow> b ''date'' \<noteq> None \<Longrightarrow>
   compare_date a b < 0 \<longleftrightarrow> js_ge (a ''date'') (b ''date'')"
  by (auto simp: compare_date_def js_lt_def js_ge_def)

lemma js_ge_trans: "js_ge x y \<Longrightarrow> js_ge y z \<Longrightarrow> js_ge x z"
  by (auto simp: js_ge_def split: option.splits)

lemma js_ge_total: "x \<noteq> None \<Longrightarrow> y \<noteq> None \<Longrightarrow> \<not> js_ge x y \<Longrightarrow> js_ge y x"
  by (auto simp: js_ge_def)

lemma sorted_insert_by:
  assumes "\<forall>r \<in> set (x # xs). r ''date'' \<noteq> None"
    and "sorted_wrt (\<lambda>a b. js_ge (a ''date'') (b ''date'')) xs"
  shows "sorted_wrt (\<lambda>a b. js_ge (a ''date'') (b ''date'')) (insert_by compare_date x xs)"
  using assms
proof (induction xs)
  case Nil
  show ?case by simp
next
  case (Cons y ys)
  have dated: "x ''date'' \<noteq> None" "y ''date'' \<noteq> None"
    using Cons.prems(1) by simp_all
  show ?case
  proof (cases "compare_date x y < 0")
    case True
    with dated have xy: "js_ge (x ''date'') (y ''date'')"
      by (simp add: compare_date_neg)
    have "\<forall>z \<in> set ys. js_ge (x ''date'') (z ''date'')"
      using xy Cons.prems(2) by (auto intro: js_ge_trans)
    with True xy Cons.prems(2) show ?thesis by simp
  next
    case False
    with dated have yx: "js_ge (y ''date'') (x ''date'')"
      by (simp add: compare_date_neg js_ge_total)
    have "sorted_wrt (\<lambda>a b. js_ge (a ''date'') (b ''date'')) (insert_by compare_date x ys)"
      using Cons.IH Cons.prems by simp
    with False yx Cons.prems(2) show ?thesis by (simp add: set_insert_by)
  qed
qed

lemma sorted_foldl_insert_by:
  assumes "\<forall>r \<in> set acc \<union> set xs. r ''date'' \<noteq> None"
    and "sorted_wrt (\<lambda>a b. js_ge (a ''date'') (b ''date'')) acc"
  shows "sorted_wrt (\<lambda>a b. js_ge (a ''date'') (b ''date''))
           (foldl (\<lambda>acc x. insert_by compare_date x acc) acc xs)"
  using assms
proof (induction xs arbitrary: acc)
  case Nil
  then show ?case by simp
next
  case (Cons x xs)
  have "sorted_wrt (\<lambda>a b. js_ge (a ''date'') (b ''date'')) (insert_by compare_date x acc)"
    using Cons.prems by (intro sorted_insert_by) simp_all
  moreover have "\<forall>r \<in> set (insert_by compare_date x acc) \<union> set xs. r ''date'' \<noteq> None"
    using Cons.prems(1) by (simp add: set_insert_by)
  ultimately show ?case using Cons.IH by simp
qed

lemma sorted_array_sort:
  "\<forall>r \<in> set xs. r ''date'' \<noteq> None \<Longrightarrow>
   sorted_wrt (\<lambda>a b. js_ge (a ''date'') (b ''date'')) (array_sort compare_date xs)"
  unfolding array_sort_def by (rule sorted_foldl_insert_by) simp_all

lemma array_sort_three:
  assumes "map (\<lambda>r. r ''date'') us = [Some ''2024-01-01'', Some ''2024-03-01'', Some ''2024-02-01'']"
  shows "map (\<lambda>r. r ''date'') (array_sort compare_date us)
           = [Some ''2024-03-01'', Some ''2024-02-01'', Some ''2024-01-01'']"
proof -
  from assms obtain a b c where us: "us = [a, b, c]"
    and d: "a ''date'' = Some ''2024-01-01''" "b ''date'' = Some ''2024-03-01''"
           "c ''date'' = Some ''2024-02-01''"
    by (auto simp: map_eq_Cons_conv)
  have "compare_date b a = - 1" "compare_date c b = 1" "compare_date c a = - 1"
    by (simp_all add: d compare_date_def js_lt_def)
  then show ?thesis
    by (simp add: us d array_sort_def)
qed

lemma js_ge_strict: "js_ge x y \<Longrightarrow> x \<noteq> y \<Longrightarrow> js_lt y x"
  by (auto simp: js_ge_def js_lt_def split: option.splits)

lemma mset_dates_array_sort:
  "mset (map (\<lambda>r. r ''date'') (array_sort cmp us)) = mset (map (\<lambda>r. r ''date'') us)"
proof -
  have "mset (map (\<lambda>r. r ''date'') (array_sort cmp us))
          = image_mset (\<lambda>r. r ''date'') (mset (array_sort cmp us))"
    by simp
  also have "\<dots> = image_mset (\<lambda>r. r ''date'') (mset us)"
    by (simp only: mset_array_sort)
  finally show ?thesis by simp
qed

lemma sorted_wrt_unique:
  assumes "sorted_wrt R xs" and "sorted_wrt R ys" and "mset xs = mset ys"
    and antisym: "\<And>a b. a \<in> set xs \<Longrightarrow> b \<in> set xs \<Longrightarrow> R a b \<Longrightarrow> R b a \<Longrightarrow> a = b"
  shows "xs = ys"
  using assms
proof (induction xs arbitrary: ys)
  case Nil
  then show ?case by simp
next
  case (Cons x xs)
  from Cons.prems(3) obtain y ys' where ys: "ys = y # ys'"
    by (cases ys) auto
  have sets: "set (x # xs) = set (y # ys')"
    using Cons.prems(3) ys by (metis set_mset_mset)
  have xy: "x = y"
  proof (rule ccontr)
    assume ne: "x \<noteq> y"
    with sets have "x \<in> set ys'" "y \<in> set xs" by auto
    with Cons.prems(1,2) ys have "R y x" "R x y" by auto
    moreover have "x \<in> set (x # xs)" "y \<in> set (x # xs)" using sets by auto
    ultimately have "x = y" using Cons.prems(4) by blast
    with ne show False by simp
  qed
  have "xs = ys'"
  proof (rule Cons.IH)
    show "sorted_wrt R xs" using Cons.prems(1) by simp
    show "sorted_wrt R ys'" using Cons.prems(2) ys by simp
    show "mset xs = mset ys'" using Cons.prems(3) ys xy by simp
    show "\<And>a b. a \<in> set xs \<Longrightarrow> b \<in> set xs \<Longrightarrow> R a b \<Longrightarrow> R b a \<Longrightarrow> a = b"
      using Cons.prems(4) by simp
  qed
  with xy ys show ?case by simp
qed

lemma js_ge_antisym: "js_ge x y \<Longrightarrow> js_ge y x \<Longrightarrow> x = y"
  by (auto simp: js_ge_def split: option.splits)

lemma sorted_wrt_compare_date:
  assumes "\<forall>r \<in> set xs. r ''date'' \<noteq> None"
  shows "sorted_wrt (\<lambda>a b. compare_date a b < 0) xs
           \<longleftrightarrow> sorted_wrt (\<lambda>a b. js_ge (a ''date'') (b ''date'')) xs"
  using assms by (induction xs) (auto simp: compare_date_neg)

lemma array_sort_only_order:
  assumes dated: "\<forall>r \<in> set us. r ''date'' \<noteq> None"
    and different: "distinct (map (\<lambda>r. r ''date'') us)"
    and perm: "mset ys = mset us"
    and ordered: "sorted_wrt (\<lambda>a b. compare_date a b < 0) ys"
  shows "ys = array_sort compare_date us"
proof -
  let ?rs = "array_sort compare_date us"
  have same: "set ys = set us" "set ?rs = set us"
    using perm by (metis set_mset_mset, simp add: set_array_sort)
  have inj: "inj_on (\<lambda>r. r ''date'') (set us)"
    using different by (simp add: distinct_map)
  have "sorted_wrt (\<lambda>a b. js_ge (a ''date'') (b ''date'')) ?rs"
    using dated by (rule sorted_array_sort)
  moreover have "sorted_wrt (\<lambda>a b. js_ge (a ''date'') (b ''date'')) ys"
    using ordered dated same sorted_wrt_compare_date [of ys] by simp
  moreover have "mset ?rs = mset ys"
    using perm by (simp add: mset_array_sort)
  moreover have "a = b" if "a \<in> set ?rs" "b \<in> set ?rs"
    "js_ge (a ''date'') (b ''date'')" "js_ge (b ''date'') (a ''date'')" for a b
  proof -
    from that(3,4) have "a ''date'' = b ''date''" by (rule js_ge_antisym)
    with inj that(1,2) same show ?thesis by (simp add: inj_on_def)
  qed
  ultimately have "?rs = ys" by (rule sorted_wrt_unique)
  then show ?thesis by simp
qed

subsection \<open>Objects\<close>

lemma post_record_src:
  "d k = Some v \<Longrightarrow> spread own d k = Some v"
  by (simp add: spread_def map_add_def)

lemma post_record_id:
  "d ''id'' = None \<Longrightarrow> spread [''id'' \<mapsto> pid, ''contentHtml'' \<mapsto> h] d ''id'' = Some pid"
  by (simp add: spread_def map_add_def)

lemma post_record_html:
  "d ''contentHtml'' = None \<Longrightarrow>
   spread [''id'' \<mapsto> pid, ''contentHtml'' \<mapsto> h] d ''contentHtml'' = Some h"
  by (simp add: spread_def map_add_def)

lemma post_record_dom:
  "dom (spread [''id'' \<mapsto> pid, ''contentHtml'' \<mapsto> h] d) = {''id'', ''contentHtml''} \<union> dom d"
  unfolding spread_def dom_map_add by simp (simp only: Un_commute insert_commute)

lemma about_record_html:
  "d ''contentHtml'' = None \<Longrightarrow> spread [''contentHtml'' \<mapsto> h] d ''contentHtml'' = Some h"
  by (simp add: spread_def map_add_def)

lemma about_record_id: "spread [''contentHtml'' \<mapsto> h] d ''id'' = d ''id''"
  by (cases "d ''id''") (simp_all add: spread_def map_add_def)

lemma summary_record_html:
  "spread [''id'' \<mapsto> p] d ''contentHtml'' = d ''contentHtml''"
  by (cases "d ''contentHtml''") (simp_all add: spread_def map_add_def)

lemma summary_record_dom: "dom (spread [''id'' \<mapsto> p] d) = insert ''id'' (dom d)"
  unfolding spread_def dom_map_add by simp

lemma post_record_rest:
  "k \<noteq> ''id'' \<Longrightarrow> k \<noteq> ''contentHtml'' \<Longrightarrow>
   spread [''id'' \<mapsto> pid, ''contentHtml'' \<mapsto> h] d k = d k"
  by (cases "d k") (simp_all add: spread_def map_add_def)

lemma about_record_rest: "k \<noteq> ''contentHtml'' \<Longrightarrow> spread [''contentHtml'' \<mapsto> h] d k = d k"
  by (cases "d k") (simp_all add: spread_def map_add_def)

lemma summary_record_id: "d ''id'' = None \<Longrightarrow> spread [''id'' \<mapsto> p] d ''id'' = Some p"
  by (simp add: spread_def map_add_def)

lemma summary_record_rest: "k \<noteq> ''id'' \<Longrightarrow> spread [''id'' \<mapsto> p] d k = d k"
  by (cases "d k") (simp_all add: spread_def map_add_def)

lemma column_InrD: "column k res = Inr vs \<Longrightarrow> \<exists>rs. res = Inr rs \<and> map (\<lambda>r. r k) rs = vs"
  by (cases res) (simp_all add: column_def)


subsection \<open>The cache of the front-matter parser\<close>

lemma matter_cases:
  obtains (special) "matter e t c = (Inr \<lparr>data = Map.empty, content = []\<rparr>, c)"
      "t = [] \<or> t \<in> set object_prototype_keys"
    | (hit) f where "t \<noteq> []" "t \<notin> set object_prototype_keys" "c t = Some f"
      "matter e t c = (Inr f, c)"
    | (parsed) f where "t \<noteq> []" "t \<notin> set object_prototype_keys" "c t = None"
      "parseMatter e t = Inr f" "matter e t c = (Inr f, c(t \<mapsto> f))"
    | (failed) msg where "t \<noteq> []" "t \<notin> set object_prototype_keys" "c t = None"
      "parseMatter e t = Inl msg"
      "matter e t c = (Inl (MatterError msg), c(t \<mapsto> \<lparr>data = Map.empty, content = t\<rparr>))"
proof (cases "t = [] \<or> t \<in> set object_prototype_keys")
  case True
  then have "matter e t c = (Inr \<lparr>data = Map.empty, content = []\<rparr>, c)"
    unfolding matter_def by (cases "t = []") simp_all
  with True show ?thesis by (rule special [rotated])
next
  case False
  then have t: "t \<noteq> []" "t \<notin> set object_prototype_keys" by simp_all
  show ?thesis
  proof (cases "c t")
    case (Some f)
    with t have "matter e t c = (Inr f, c)" unfolding matter_def by simp
    with t Some show ?thesis by (rule hit)
  next
    case None
    show ?thesis
    proof (cases "parseMatter e t")
      case (Inl msg)
      with t None
      have "matter e t c = (Inl (MatterError msg), c(t \<mapsto> \<lparr>data = Map.empty, content = t\<rparr>))"
        unfolding matter_def by simp
      with t None Inl show ?thesis by (rule failed)
    next
      case (Inr f)
      with t None have "matter e t c = (Inr f, c(t \<mapsto> f))" unfolding matter_def by simp
      with t None Inr show ?thesis by (rule parsed)
    qed
  qed
qed

lemma matter_mono: "c \<subseteq>\<^sub>m snd (matter e t c)"
  by (cases rule: matter_cases [where e = e and t = t and c = c]) (auto simp: map_le_def)



lemma matter_update: "matter (e\<lparr>remark := rm\<rparr>) = matter e"
  by (intro ext) (simp add: matter_def split: option.splits sum.splits)

text \<open>
  A cache grows out of another when it keeps every file of the other and every file it
  has in addition is one that \<open>matter\<close> puts there: the parsed file, or the unparsed file of
  a text on which the parser throws.
\<close>

lemma grows_refl: "grows e c c"
  by (simp add: grows_def)

lemma grows_trans: "grows e c c' \<Longrightarrow> grows e c' c'' \<Longrightarrow> grows e c c''"
  unfolding grows_def by (metis option.exhaust)

lemma matter_grows: "grows e c (snd (matter e t c))"
  by (cases rule: matter_cases [where e = e and t = t and c = c]) (auto simp: grows_def entry_of_def)

lemma matter_stable:
  assumes "fst (matter e t c) = Inr m" and "grows e c c'"
  shows "fst (matter e t c') = Inr m"
proof (cases rule: matter_cases [where e = e and t = t and c = c])
  case special
  with assms(1) have "m = \<lparr>data = Map.empty, content = []\<rparr>" by simp
  with special(2) show ?thesis unfolding matter_def by (cases "t = []") simp_all
next
  case (hit f)
  with assms have "c' t = Some m" by (simp add: grows_def)
  with hit(1,2) show ?thesis unfolding matter_def by simp
next
  case (parsed f)
  with assms(1) have m: "m = f" by simp
  show ?thesis
  proof (cases "c' t")
    case None
    with parsed m show ?thesis unfolding matter_def by simp
  next
    case (Some g)
    with assms(2) parsed(3) have "entry_of e t g" by (simp add: grows_def)
    with parsed(4) have "g = f" by (auto simp: entry_of_def)
    with Some parsed(1,2) m show ?thesis unfolding matter_def by simp
  qed
next
  case (failed msg)
  with assms(1) show ?thesis by simp
qed


lemma cache_ok_matter: "cache_ok e c \<Longrightarrow> cache_ok e (snd (matter e t c))"
  by (cases rule: matter_cases [where e = e and t = t and c = c]) (auto simp: cache_ok_def entry_of_def)



subsection \<open>Loading one document\<close>

lemma call_remark_update:
  "rm [Html None] = remark e [Html None] \<Longrightarrow>
   call_remark (e\<lparr>remark := rm\<rparr>) [Html None] body = call_remark e [Html None] body"
  by (simp add: call_remark_def)

lemma call_remark_update_post:
  "rm [Html (Some \<lparr>sanitize = False\<rparr>), Prism] = remark e [Html (Some \<lparr>sanitize = False\<rparr>), Prism] \<Longrightarrow>
   call_remark (e\<lparr>remark := rm\<rparr>) [Html (Some \<lparr>sanitize = False\<rparr>), Prism] body
     = call_remark e [Html (Some \<lparr>sanitize = False\<rparr>), Prism] body"
  by (simp add: call_remark_def)

lemma post_summary_success:
  assumes "readFileSync fs (path_join (postsDirectory e) fileName) = Inr txt"
    and "fst (matter e txt c) = Inr m"
  shows "post_summary e fs fileName c
           = (Inr (spread [''id'' \<mapsto> strip_md fileName] (data m)), snd (matter e txt c))"
  using assms by (cases "matter e txt c") (simp add: post_summary_def)

lemma post_summary_Inr:
  assumes "fst (post_summary e fs fileName c) = Inr r"
  shows "\<exists>txt m. readFileSync fs (path_join (postsDirectory e) fileName) = Inr txt
           \<and> fst (matter e txt c) = Inr m
           \<and> r = spread [''id'' \<mapsto> strip_md fileName] (data m)
           \<and> snd (post_summary e fs fileName c) = snd (matter e txt c)"
proof (cases "readFileSync fs (path_join (postsDirectory e) fileName)")
  case (Inl err)
  with assms show ?thesis by (simp add: post_summary_def)
next
  case (Inr fileContents)
  obtain res c' where m: "matter e fileContents c = (res, c')" by (cases "matter e fileContents c")
  with Inr assms obtain m' where "res = Inr m'"
    by (cases res) (simp_all add: post_summary_def)
  with Inr m assms show ?thesis by (simp add: post_summary_def)
qed

lemma post_summary_grows: "grows e c (snd (post_summary e fs fileName c))"
proof (cases "readFileSync fs (path_join (postsDirectory e) fileName)")
  case (Inl err)
  then show ?thesis by (simp add: post_summary_def grows_refl)
next
  case (Inr fileContents)
  have "snd (post_summary e fs fileName c) = snd (matter e fileContents c)"
    using Inr by (cases "matter e fileContents c") (simp add: post_summary_def split: sum.splits)
  then show ?thesis by (simp add: matter_grows)
qed


lemma post_summary_update: "post_summary (e\<lparr>remark := rm\<rparr>) fs = post_summary e fs"
  by (intro ext) (simp add: post_summary_def postsDirectory_def matter_update
      cong: sum.case_cong prod.case_cong)

lemma getPostData_success:
  assumes "readFileSync fs (path_join (postsDirectory e) (pid @ ''.md'')) = Inr txt"
    and "fst (matter e txt c) = Inr m"
    and "remark e [Html (Some \<lparr>sanitize = False\<rparr>), Prism] (content m) = Inr h"
  shows "getPostData e fs pid c
           = (Inr (spread [''id'' \<mapsto> pid, ''contentHtml'' \<mapsto> h] (data m)), snd (matter e txt c))"
  using assms by (cases "matter e txt c") (simp add: getPostData_def call_remark_def)

lemma getAboutPageData_success:
  assumes "readFileSync fs (path_join (aboutPageDirectory e) ''about.md'') = Inr txt"
    and "fst (matter e txt c) = Inr m"
    and "remark e [Html None] (content m) = Inr h"
  shows "getAboutPageData e fs c
           = (Inr (spread [''contentHtml'' \<mapsto> h] (data m)), snd (matter e txt c))"
  using assms by (cases "matter e txt c") (simp add: getAboutPageData_def call_remark_def)

lemma getSortedPostsData_update:
  "getSortedPostsData (e\<lparr>remark := rm\<rparr>) fs = getSortedPostsData e fs"
  by (intro ext) (simp add: getSortedPostsData_def post_summary_update postsDirectory_def
      cong: sum.case_cong prod.case_cong)

lemma getAboutPageData_update:
  assumes "rm [Html None] = remark e [Html None]"
  shows "getAboutPageData (e\<lparr>remark := rm\<rparr>) fs c = getAboutPageData e fs c"
  using assms
  by (simp add: getAboutPageData_def aboutPageDirectory_def matter_update
      call_remark_update cong: sum.case_cong prod.case_cong)

lemma getPostData_update:
  assumes "rm [Html (Some \<lparr>sanitize = False\<rparr>), Prism]
             = remark e [Html (Some \<lparr>sanitize = False\<rparr>), Prism]"
  shows "getPostData (e\<lparr>remark := rm\<rparr>) fs pid c = getPostData e fs pid c"
  using assms
  by (simp add: getPostData_def postsDirectory_def matter_update
      call_remark_update_post cong: sum.case_cong prod.case_cong)



subsection \<open>Mapping over the posts\<close>





lemma summaries_grow: "grows e c (snd (array_map (post_summary e fs) xs c))"
proof (induction xs arbitrary: c)
  case Nil
  show ?case by (simp add: grows_refl)
next
  case (Cons x xs)
  obtain r1 c1 where f: "post_summary e fs x c = (r1, c1)" by (cases "post_summary e fs x c")
  with post_summary_grows [of e c fs x] have g1: "grows e c c1" by simp
  show ?case
  proof (cases r1)
    case (Inl err)
    with f g1 show ?thesis by simp
  next
    case (Inr y)
    obtain r2 c2 where rest: "array_map (post_summary e fs) xs c1 = (r2, c2)"
      by (cases "array_map (post_summary e fs) xs c1")
    with Cons.IH [of c1] have "grows e c1 c2" by simp
    with g1 have "grows e c c2" by (rule grows_trans)
    with f Inr rest show ?thesis by (cases r2) simp_all
  qed
qed

lemma summaries_origin:
  assumes "fst (array_map (post_summary e fs) xs c) = Inr ys" and "y \<in> set ys"
  shows "\<exists>x \<in> set xs. \<exists>c1. grows e c c1 \<and> fst (post_summary e fs x c1) = Inr y"
  using assms
proof (induction xs arbitrary: c ys)
  case Nil
  then show ?case by simp
next
  case (Cons x xs)
  obtain r1 c1 where f: "post_summary e fs x c = (r1, c1)" by (cases "post_summary e fs x c")
  with post_summary_grows [of e c fs x] have g1: "grows e c c1" by simp
  obtain r2 c2 where rest: "array_map (post_summary e fs) xs c1 = (r2, c2)"
    by (cases "array_map (post_summary e fs) xs c1")
  from Cons.prems(1) f rest obtain y1 ys1 where r1: "r1 = Inr y1" and r2: "r2 = Inr ys1"
    and ys: "ys = y1 # ys1"
    by (cases r1; cases r2) simp_all
  show ?case
  proof (cases "y = y1")
    case True
    with f r1 have "fst (post_summary e fs x c) = Inr y" by simp
    with grows_refl [of e c] show ?thesis by auto
  next
    case False
    with Cons.prems(2) ys have "y \<in> set ys1" by simp
    moreover from rest r2 have "fst (array_map (post_summary e fs) xs c1) = Inr ys1" by simp
    ultimately obtain x' c' where "x' \<in> set xs" "grows e c1 c'"
      "fst (post_summary e fs x' c') = Inr y"
      using Cons.IH by blast
    with g1 grows_trans [of e c c1 c'] show ?thesis by auto
  qed
qed

lemma summaries_member:
  assumes "fst (array_map (post_summary e fs) xs c) = Inr ys" and "x \<in> set xs"
  shows "\<exists>y \<in> set ys. \<exists>c1. grows e c c1 \<and> fst (post_summary e fs x c1) = Inr y"
  using assms
proof (induction xs arbitrary: c ys)
  case Nil
  then show ?case by simp
next
  case (Cons x0 xs)
  obtain r1 c1 where f: "post_summary e fs x0 c = (r1, c1)" by (cases "post_summary e fs x0 c")
  with post_summary_grows [of e c fs x0] have g1: "grows e c c1" by simp
  obtain r2 c2 where rest: "array_map (post_summary e fs) xs c1 = (r2, c2)"
    by (cases "array_map (post_summary e fs) xs c1")
  from Cons.prems(1) f rest obtain y1 ys1 where r1: "r1 = Inr y1" and r2: "r2 = Inr ys1"
    and ys: "ys = y1 # ys1"
    by (cases r1; cases r2) simp_all
  show ?case
  proof (cases "x = x0")
    case True
    with f r1 have "fst (post_summary e fs x c) = Inr y1" by simp
    with grows_refl [of e c] ys show ?thesis by auto
  next
    case False
    with Cons.prems(2) have "x \<in> set xs" by simp
    moreover from rest r2 have "fst (array_map (post_summary e fs) xs c1) = Inr ys1" by simp
    ultimately obtain y' c' where "y' \<in> set ys1" "grows e c1 c'"
      "fst (post_summary e fs x c') = Inr y'"
      using Cons.IH by blast
    with g1 grows_trans [of e c c1 c'] ys show ?thesis by auto
  qed
qed

lemma array_map_parsed:
  assumes "list_all2 (\<lambda>fileName m. \<exists>txt.
              readFileSync fs (path_join (postsDirectory e) fileName) = Inr txt
              \<and> fst (matter e txt c0) = Inr m) fileNames ms"
    and "grows e c0 c"
  shows "\<exists>us. fst (array_map (post_summary e fs) fileNames c) = Inr us
           \<and> map (\<lambda>r. r ''date'') us = map (\<lambda>m. data m ''date'') ms"
  using assms
proof (induction arbitrary: c rule: list_all2_induct)
  case Nil
  show ?case by simp
next
  case (Cons fileName fileNames m ms)
  from Cons.hyps(1) obtain fileContents
    where readable: "readFileSync fs (path_join (postsDirectory e) fileName) = Inr fileContents"
      and parsed: "fst (matter e fileContents c0) = Inr m"
    by (elim exE conjE)
  from parsed Cons.prems have "fst (matter e fileContents c) = Inr m" by (rule matter_stable)
  with readable have one: "post_summary e fs fileName c
      = (Inr (spread [''id'' \<mapsto> strip_md fileName] (data m)), snd (matter e fileContents c))"
    by (rule post_summary_success)
  have "grows e c (snd (matter e fileContents c))" by (rule matter_grows)
  with Cons.prems have "grows e c0 (snd (matter e fileContents c))" by (rule grows_trans)
  from Cons.IH [OF this] obtain us
    where rest: "fst (array_map (post_summary e fs) fileNames (snd (matter e fileContents c))) = Inr us"
      and dates: "map (\<lambda>r. r ''date'') us = map (\<lambda>m. data m ''date'') ms"
    by (elim exE conjE)
  obtain r2 c2
    where pair: "array_map (post_summary e fs) fileNames (snd (matter e fileContents c)) = (r2, c2)"
    by (cases "array_map (post_summary e fs) fileNames (snd (matter e fileContents c))")
  with rest have "r2 = Inr us" by simp
  with one pair dates spread_id_date [of "strip_md fileName" "data m"] show ?case by simp
qed

lemma getSortedPostsData_Inr:
  "fst (getSortedPostsData e fs c) = Inr rs \<longleftrightarrow>
     (\<exists>fileNames us. readdirSync fs (postsDirectory e) = Inr fileNames
        \<and> fst (array_map (post_summary e fs) fileNames c) = Inr us
        \<and> rs = array_sort compare_date us)"
proof (cases "readdirSync fs (postsDirectory e)")
  case (Inl err)
  then show ?thesis by (simp add: getSortedPostsData_def)
next
  case (Inr fileNames)
  obtain r c1 where "array_map (post_summary e fs) fileNames c = (r, c1)"
    by (cases "array_map (post_summary e fs) fileNames c")
  with Inr show ?thesis by (cases r) (auto simp: getSortedPostsData_def)
qed


text \<open>
  Every operation lets the cache grow, so a cache that started empty never holds anything
  but what \<open>matter\<close> has put there.
\<close>

lemma grows_cache_ok: "cache_ok e c \<Longrightarrow> grows e c c' \<Longrightarrow> cache_ok e c'"
  unfolding cache_ok_def grows_def by (metis option.exhaust)

lemma getPostData_grows: "grows e c (snd (getPostData e fs pid c))"
proof (cases "readFileSync fs (path_join (postsDirectory e) (pid @ ''.md''))")
  case (Inl err)
  then show ?thesis by (simp add: getPostData_def grows_refl)
next
  case (Inr fileContents)
  have "snd (getPostData e fs pid c) = snd (matter e fileContents c)"
    using Inr by (cases "matter e fileContents c") (simp add: getPostData_def split: sum.splits)
  then show ?thesis by (simp add: matter_grows)
qed

lemma getAboutPageData_grows: "grows e c (snd (getAboutPageData e fs c))"
proof (cases "readFileSync fs (path_join (aboutPageDirectory e) ''about.md'')")
  case (Inl err)
  then show ?thesis by (simp add: getAboutPageData_def grows_refl)
next
  case (Inr fileContents)
  have "snd (getAboutPageData e fs c) = snd (matter e fileContents c)"
    using Inr by (cases "matter e fileContents c") (simp add: getAboutPageData_def split: sum.splits)
  then show ?thesis by (simp add: matter_grows)
qed

lemma getSortedPostsData_grows: "grows e c (snd (getSortedPostsData e fs c))"
proof (cases "readdirSync fs (postsDirectory e)")
  case (Inl err)
  then show ?thesis by (simp add: getSortedPostsData_def grows_refl)
next
  case (Inr fileNames)
  have "snd (getSortedPostsData e fs c) = snd (array_map (post_summary e fs) fileNames c)"
    using Inr by (cases "array_map (post_summary e fs) fileNames c")
      (simp add: getSortedPostsData_def split: sum.splits)
  then show ?thesis by (simp add: summaries_grow)
qed

subsection \<open>Instances\<close>

lemma readdir_blog:
  "readdirSync blog_fs (postsDirectory ref_env) = Inr [''first.md'', ''third.md'', ''second.md'']"
  by (simp add: run_defs blog_fs_def)

lemma read_first:
  "readFileSync blog_fs (path_join (postsDirectory ref_env) ''first.md'')
     = Inr (post_text ''T'' ''2024-01-01'' ''# Hi'')"
  by (simp add: run_defs blog_fs_def)

lemma read_third:
  "readFileSync blog_fs (path_join (postsDirectory ref_env) ''third.md'')
     = Inr (post_text ''Third'' ''2024-03-01'' ''Some text'')"
  by (simp add: run_defs blog_fs_def)

lemma read_second:
  "readFileSync blog_fs (path_join (postsDirectory ref_env) ''second.md'')
     = Inr (post_text ''Second'' ''2024-02-01'' ''<div>raw</div>'')"
  by (simp add: run_defs blog_fs_def)


lemma matter_first:
  "fst (matter ref_env (post_text ''T'' ''2024-01-01'' ''# Hi'') Map.empty)
     = Inr \<lparr>data = [''title'' \<mapsto> ''T'', ''date'' \<mapsto> ''2024-01-01''], content = ''# Hi''\<rparr>"
  by (simp add: run_defs)

lemma matter_third:
  "fst (matter ref_env (post_text ''Third'' ''2024-03-01'' ''Some text'') Map.empty)
     = Inr \<lparr>data = [''title'' \<mapsto> ''Third'', ''date'' \<mapsto> ''2024-03-01''], content = ''Some text''\<rparr>"
  by (simp add: run_defs)

lemma matter_second:
  "fst (matter ref_env (post_text ''Second'' ''2024-02-01'' ''<div>raw</div>'') Map.empty)
     = Inr \<lparr>data = [''title'' \<mapsto> ''Second'', ''date'' \<mapsto> ''2024-02-01''],
            content = ''<div>raw</div>''\<rparr>"
  by (simp add: run_defs)

lemma remark_heading:
  "ref_remark [Html (Some \<lparr>sanitize = False\<rparr>), Prism] ''# Hi'' = Inr (''<h1>Hi</h1>'' @ [nl])"
  by (simp add: run_defs)

lemma read_first_id:
  "readFileSync blog_fs (path_join (postsDirectory ref_env) (''first'' @ ''.md''))
     = Inr (post_text ''T'' ''2024-01-01'' ''# Hi'')"
  by (simp add: run_defs blog_fs_def)

lemma read_about:
  "readFileSync blog_fs (path_join (aboutPageDirectory ref_env) ''about.md'')
     = Inr (join_lines [''---'', ''title: About'', ''---'', ''<div>raw</div>''])"
  by (simp add: run_defs blog_fs_def)

lemma matter_about:
  "fst (matter ref_env (join_lines [''---'', ''title: About'', ''---'', ''<div>raw</div>'']) Map.empty)
     = Inr \<lparr>data = [''title'' \<mapsto> ''About''], content = ''<div>raw</div>''\<rparr>"
  by (simp add: run_defs)

lemma remark_about:
  "remark ref_env [Html None] ''<div>raw</div>'' = Inr []"
  by (simp add: run_defs)

lemma read_own_id:
  "readFileSync stray_fs (path_join (postsDirectory ref_env) (''own-id'' @ ''.md'')) = Inr own_id_text"
  by (simp add: run_defs stray_fs_def)

lemma read_own_id_file:
  "readFileSync stray_fs (path_join (postsDirectory ref_env) ''own-id.md'') = Inr own_id_text"
  by (simp add: run_defs stray_fs_def)

lemma matter_own_id:
  "fst (matter ref_env own_id_text Map.empty)
     = Inr \<lparr>data = [''id'' \<mapsto> ''other'', ''contentHtml'' \<mapsto> ''mine'', ''date'' \<mapsto> ''2024-05-05''],
            content = ''Body''\<rparr>"
  by (simp add: run_defs)

lemma remark_body:
  "remark ref_env [Html (Some \<lparr>sanitize = False\<rparr>), Prism] ''Body'' = Inr (''<p>Body</p>'' @ [nl])"
  by (simp add: run_defs)

lemma read_stray_about:
  "readFileSync stray_fs (path_join (aboutPageDirectory ref_env) ''about.md'')
     = Inr (join_lines [''---'', ''contentHtml: mine'', ''---'', ''Body''])"
  by (simp add: run_defs stray_fs_def)

lemma matter_stray_about:
  "fst (matter ref_env (join_lines [''---'', ''contentHtml: mine'', ''---'', ''Body'']) Map.empty)
     = Inr \<lparr>data = [''contentHtml'' \<mapsto> ''mine''], content = ''Body''\<rparr>"
  by (simp add: run_defs)

lemma remark_stray_about:
  "remark ref_env [Html None] ''Body'' = Inr (''<p>Body</p>'' @ [nl])"
  by (simp add: run_defs)

lemma read_notes:
  "readFileSync stray_fs (path_join (postsDirectory ref_env) ''notes.txt'') = Inr ''to do''"
  by (simp add: run_defs stray_fs_def)

lemma matter_notes:
  "fst (matter ref_env ''to do'' Map.empty) = Inr \<lparr>data = Map.empty, content = ''to do''\<rparr>"
  by (simp add: run_defs)

lemma readdir_stray:
  "readdirSync stray_fs (postsDirectory ref_env) = Inr [''notes.txt'', ''own-id.md'']"
  by (simp add: run_defs stray_fs_def)

lemma sorted_stray:
  "column ''id'' (fst (getSortedPostsData ref_env stray_fs Map.empty))
     = Inr [Some ''other'', Some ''notes.txt'']"
  by (simp add: run_defs stray_fs_def)

lemma sorted_blog:
  "column ''date'' (fst (getSortedPostsData ref_env blog_fs Map.empty))
     = Inr [Some ''2024-03-01'', Some ''2024-02-01'', Some ''2024-01-01'']"
  by (simp add: run_defs blog_fs_def)

subsection \<open>The claims\<close>

text \<open>
  C1. When every post file parses (in the cache the call starts from) and the front-matter
  dates are strings, no two of them equal, \<open>getSortedPostsData\<close> returns the posts with
  their dates in descending lexical order: of two neighbours the first has the greater date (\<^verbatim>\<open>a.date >= b.date\<close>, here even
  strictly). The dates returned are those of the files, and the order returned is the only
  order of these records that the comparator accepts. In particular files dated
  2024-01-01, 2024-03-01, 2024-02-01, in this order of the listing, come back as
  2024-03-01, 2024-02-01, 2024-01-01.
\<close>

theorem getSortedPostsData_sorted_desc:
  assumes listing: "readdirSync fs (postsDirectory e) = Inr fileNames"
    and parsed: "list_all2 (\<lambda>fileName m. \<exists>txt.
                    readFileSync fs (path_join (postsDirectory e) fileName) = Inr txt
                    \<and> fst (matter e txt c) = Inr m) fileNames ms"
    and strings: "\<forall>m \<in> set ms. data m ''date'' \<noteq> None"
    and different: "distinct (map (\<lambda>m. data m ''date'') ms)"
  shows "\<exists>rs. fst (getSortedPostsData e fs c) = Inr rs
           \<and> mset (map (\<lambda>r. r ''date'') rs) = mset (map (\<lambda>m. data m ''date'') ms)
           \<and> (\<forall>i. Suc i < length rs \<longrightarrow>
                 js_ge ((rs ! i) ''date'') ((rs ! Suc i) ''date'')
                 \<and> js_lt ((rs ! Suc i) ''date'') ((rs ! i) ''date''))
           \<and> (\<forall>ys. mset ys = mset rs \<and> sorted_wrt (\<lambda>a b. compare_date a b < 0) ys \<longrightarrow> ys = rs)
           \<and> (map (\<lambda>m. data m ''date'') ms
                 = [Some ''2024-01-01'', Some ''2024-03-01'', Some ''2024-02-01'']
               \<longrightarrow> map (\<lambda>r. r ''date'') rs
                 = [Some ''2024-03-01'', Some ''2024-02-01'', Some ''2024-01-01''])"
proof -
  from array_map_parsed [OF parsed grows_refl] obtain us
    where us: "fst (array_map (post_summary e fs) fileNames c) = Inr us"
      and dates: "map (\<lambda>r. r ''date'') us = map (\<lambda>m. data m ''date'') ms"
    by (elim exE conjE)
  define rs where "rs = array_sort compare_date us"
  have run: "fst (getSortedPostsData e fs c) = Inr rs"
    unfolding getSortedPostsData_Inr rs_def using listing us by simp
  have perm: "mset (map (\<lambda>r. r ''date'') rs) = mset (map (\<lambda>m. data m ''date'') ms)"
    unfolding rs_def by (simp only: mset_dates_array_sort dates)
  have dated: "\<forall>r \<in> set us. r ''date'' \<noteq> None"
  proof
    fix r assume "r \<in> set us"
    then have "r ''date'' \<in> set (map (\<lambda>r. r ''date'') us)" by simp
    then have "r ''date'' \<in> (\<lambda>m. data m ''date'') ` set ms" by (simp only: dates set_map)
    with strings show "r ''date'' \<noteq> None" by auto
  qed
  have sorted: "sorted_wrt (\<lambda>a b. js_ge (a ''date'') (b ''date'')) rs"
    unfolding rs_def using dated by (rule sorted_array_sort)
  have dist: "distinct (map (\<lambda>r. r ''date'') rs)"
    using perm different mset_eq_imp_distinct_iff by blast
  have adjacent: "\<forall>i. Suc i < length rs \<longrightarrow>
                 js_ge ((rs ! i) ''date'') ((rs ! Suc i) ''date'')
                 \<and> js_lt ((rs ! Suc i) ''date'') ((rs ! i) ''date'')"
  proof (intro allI impI)
    fix i assume i: "Suc i < length rs"
    with sorted have ge: "js_ge ((rs ! i) ''date'') ((rs ! Suc i) ''date'')"
      by (simp add: sorted_wrt_iff_nth_less)
    from i have "i < length (map (\<lambda>r. r ''date'') rs)" "Suc i < length (map (\<lambda>r. r ''date'') rs)"
      by simp_all
    with dist have "map (\<lambda>r. r ''date'') rs ! i \<noteq> map (\<lambda>r. r ''date'') rs ! Suc i"
      by (simp only: nth_eq_iff_index_eq)
    with i have "(rs ! i) ''date'' \<noteq> (rs ! Suc i) ''date''" by simp
    with ge show "js_ge ((rs ! i) ''date'') ((rs ! Suc i) ''date'')
                 \<and> js_lt ((rs ! Suc i) ''date'') ((rs ! i) ''date'')"
      by (simp add: js_ge_strict)
  qed
  have different_us: "distinct (map (\<lambda>r. r ''date'') us)"
    using different by (simp only: dates)
  have only: "\<forall>ys. mset ys = mset rs \<and> sorted_wrt (\<lambda>a b. compare_date a b < 0) ys \<longrightarrow> ys = rs"
  proof (intro allI impI)
    fix ys assume h: "mset ys = mset rs \<and> sorted_wrt (\<lambda>a b. compare_date a b < 0) ys"
    then have "mset ys = mset us" by (simp add: rs_def mset_array_sort)
    with dated different_us h show "ys = rs"
      unfolding rs_def by (intro array_sort_only_order) simp_all
  qed
  have scenario: "map (\<lambda>m. data m ''date'') ms
                 = [Some ''2024-01-01'', Some ''2024-03-01'', Some ''2024-02-01'']
               \<longrightarrow> map (\<lambda>r. r ''date'') rs
                 = [Some ''2024-03-01'', Some ''2024-02-01'', Some ''2024-01-01'']"
    unfolding rs_def using dates array_sort_three [of us] by simp
  show ?thesis
  proof (intro exI [of _ rs] conjI)
    show "fst (getSortedPostsData e fs c) = Inr rs" by (fact run)
    show "mset (map (\<lambda>r. r ''date'') rs) = mset (map (\<lambda>m. data m ''date'') ms)" by (fact perm)
    show "\<forall>i. Suc i < length rs \<longrightarrow>
                 js_ge ((rs ! i) ''date'') ((rs ! Suc i) ''date'')
                 \<and> js_lt ((rs ! Suc i) ''date'') ((rs ! i) ''date'')" by (fact adjacent)
    show "\<forall>ys. mset ys = mset rs \<and> sorted_wrt (\<lambda>a b. compare_date a b < 0) ys \<longrightarrow> ys = rs"
      by (fact only)
    show "map (\<lambda>m. data m ''date'') ms
                 = [Some ''2024-01-01'', Some ''2024-03-01'', Some ''2024-02-01'']
               \<longrightarrow> map (\<lambda>r. r ''date'') rs
                 = [Some ''2024-03-01'', Some ''2024-02-01'', Some ''2024-01-01'']" by (fact scenario)
  qed
qed

theorem getSortedPostsData_sorted_desc_witness:
  "readdirSync blog_fs (postsDirectory ref_env) = Inr [''first.md'', ''third.md'', ''second.md'']
   \<and> column ''date'' (fst (getSortedPostsData ref_env blog_fs Map.empty))
       = Inr [Some ''2024-03-01'', Some ''2024-02-01'', Some ''2024-01-01'']"
proof -
  define m1 where "m1 = \<lparr>data = [''title'' \<mapsto> ''T'', ''date'' \<mapsto> ''2024-01-01''], content = ''# Hi''\<rparr>"
  define m3 where
    "m3 = \<lparr>data = [''title'' \<mapsto> ''Third'', ''date'' \<mapsto> ''2024-03-01''], content = ''Some text''\<rparr>"
  define m2 where
    "m2 = \<lparr>data = [''title'' \<mapsto> ''Second'', ''date'' \<mapsto> ''2024-02-01''],
           content = ''<div>raw</div>''\<rparr>"
  have p1: "fst (matter ref_env (post_text ''T'' ''2024-01-01'' ''# Hi'') Map.empty) = Inr m1"
    unfolding m1_def by (rule matter_first)
  have p3: "fst (matter ref_env (post_text ''Third'' ''2024-03-01'' ''Some text'') Map.empty) = Inr m3"
    unfolding m3_def by (rule matter_third)
  have p2: "fst (matter ref_env (post_text ''Second'' ''2024-02-01'' ''<div>raw</div>'') Map.empty)
              = Inr m2"
    unfolding m2_def by (rule matter_second)
  have parsed: "list_all2 (\<lambda>fileName m. \<exists>txt.
                    readFileSync blog_fs (path_join (postsDirectory ref_env) fileName) = Inr txt
                    \<and> fst (matter ref_env txt Map.empty) = Inr m)
                  [''first.md'', ''third.md'', ''second.md''] [m1, m3, m2]"
    using read_first read_third read_second p1 p3 p2 by simp
  have ds: "map (\<lambda>m. data m ''date'') [m1, m3, m2]
              = [Some ''2024-01-01'', Some ''2024-03-01'', Some ''2024-02-01'']"
    by (simp add: m1_def m2_def m3_def)
  have strings: "\<forall>m \<in> set [m1, m3, m2]. data m ''date'' \<noteq> None"
    by (simp add: m1_def m2_def m3_def)
  have different: "distinct (map (\<lambda>m. data m ''date'') [m1, m3, m2])"
    by (simp add: m1_def m2_def m3_def)
  from getSortedPostsData_sorted_desc [OF readdir_blog parsed strings different]
  obtain rs where run: "fst (getSortedPostsData ref_env blog_fs Map.empty) = Inr rs"
    and scenario: "map (\<lambda>m. data m ''date'') [m1, m3, m2]
                 = [Some ''2024-01-01'', Some ''2024-03-01'', Some ''2024-02-01'']
               \<longrightarrow> map (\<lambda>r. r ''date'') rs
                 = [Some ''2024-03-01'', Some ''2024-02-01'', Some ''2024-01-01'']"
    by (elim exE conjE)
  from scenario ds
  have "map (\<lambda>r. r ''date'') rs = [Some ''2024-03-01'', Some ''2024-02-01'', Some ''2024-01-01'']"
    by (rule mp)
  with run have "column ''date'' (fst (getSortedPostsData ref_env blog_fs Map.empty))
       = Inr [Some ''2024-03-01'', Some ''2024-02-01'', Some ''2024-01-01'']"
    by (simp add: column_def)
  with readdir_blog show ?thesis by simp
qed

text \<open>
  C2 (as amended). \<open>getAllPostIds\<close> returns one identifier per entry of the posts
  directory, in the order of the listing, each the entry's name without a final \<^verbatim>\<open>.md\<close>.
  The identifiers are free of duplicates when the names are and no name without the
  extension has a sibling that is this name followed by \<^verbatim>\<open>.md\<close>.
\<close>

theorem getAllPostIds_one_per_file:
  assumes "readdirSync fs (postsDirectory e) = Inr fileNames"
  shows "\<exists>ps. getAllPostIds e fs = Inr ps
           \<and> length ps = length fileNames
           \<and> map (\<lambda>p. id' (params p)) ps = map strip_md fileNames
           \<and> (\<forall>s. strip_md (s @ ''.md'') = s)
           \<and> (distinct fileNames
                \<and> (\<forall>n \<in> set fileNames. \<not> ends_with_md n \<longrightarrow> n @ ''.md'' \<notin> set fileNames)
              \<longrightarrow> distinct (map (\<lambda>p. id' (params p)) ps))"
  using assms by (simp add: getAllPostIds_def comp_def distinct_strip_md)

theorem getAllPostIds_one_per_file_witness:
  "readdirSync blog_fs (postsDirectory ref_env) = Inr [''first.md'', ''third.md'', ''second.md'']
   \<and> ids_of (getAllPostIds ref_env blog_fs) = Inr [''first'', ''third'', ''second'']
   \<and> distinct [''first'', ''third'', ''second'']"
proof -
  from getAllPostIds_one_per_file [OF readdir_blog] obtain ps
    where "getAllPostIds ref_env blog_fs = Inr ps"
      and "map (\<lambda>p. id' (params p)) ps = map strip_md [''first.md'', ''third.md'', ''second.md'']"
    by blast
  then have "ids_of (getAllPostIds ref_env blog_fs) = Inr [''first'', ''third'', ''second'']"
    by (simp add: ids_of_def strip_md_def ends_with_md_def)
  with readdir_blog show ?thesis by simp
qed

text \<open>
  The claim as stated fails: the names \<^verbatim>\<open>a\<close> and \<^verbatim>\<open>a.md\<close> differ, their identifiers do not.
\<close>

theorem getAllPostIds_duplicate_ids:
  "distinct [''a'', ''a.md'']
   \<and> readdirSync stem_clash_fs (postsDirectory ref_env) = Inr [''a'', ''a.md'']
   \<and> ids_of (getAllPostIds ref_env stem_clash_fs) = Inr [''a'', ''a'']"
  by (simp add: run_defs stem_clash_fs_def)

text \<open>
  C3 (as amended). Take an entry of the posts directory whose name ends in \<^verbatim>\<open>.md\<close> and
  which is a readable file that parses and renders. Its identifier is among those of
  \<open>getAllPostIds\<close>, and \<open>getPostData\<close> succeeds on it. The \<^verbatim>\<open>id\<close> of the record is the
  identifier asked for, unless the front matter declares an \<^verbatim>\<open>id\<close> of its own, which is
  then the one returned.
\<close>

theorem getPostData_of_listed_file:
  assumes listing: "readdirSync fs (postsDirectory e) = Inr fileNames"
    and entry: "fileName \<in> set fileNames"
    and md: "ends_with_md fileName"
    and readable: "readFileSync fs (path_join (postsDirectory e) fileName) = Inr txt"
    and parsed: "fst (matter e txt c) = Inr m"
    and rendered: "remark e [Html (Some \<lparr>sanitize = False\<rparr>), Prism] (content m) = Inr h"
  shows "\<exists>ps r. getAllPostIds e fs = Inr ps
           \<and> strip_md fileName \<in> set (map (\<lambda>p. id' (params p)) ps)
           \<and> fst (getPostData e fs (strip_md fileName) c) = Inr r
           \<and> (data m ''id'' = None \<longrightarrow> r ''id'' = Some (strip_md fileName))
           \<and> (\<forall>v. data m ''id'' = Some v \<longrightarrow> r ''id'' = Some v)"
proof -
  define ps where "ps = map (\<lambda>fileName. \<lparr>params = \<lparr>id' = strip_md fileName\<rparr>\<rparr>) fileNames"
  define r where "r = spread [''id'' \<mapsto> strip_md fileName, ''contentHtml'' \<mapsto> h] (data m)"
  have ids: "getAllPostIds e fs = Inr ps"
    using listing by (simp add: getAllPostIds_def ps_def)
  have listed: "strip_md fileName \<in> set (map (\<lambda>p. id' (params p)) ps)"
    using entry by (simp add: ps_def comp_def)
  have "strip_md fileName @ ''.md'' = fileName"
    using md by (rule strip_md_restore)
  with readable
  have "readFileSync fs (path_join (postsDirectory e) (strip_md fileName @ ''.md'')) = Inr txt"
    by simp
  from getPostData_success [OF this parsed rendered]
  have run: "fst (getPostData e fs (strip_md fileName) c) = Inr r"
    unfolding r_def by simp
  have own: "data m ''id'' = None \<longrightarrow> r ''id'' = Some (strip_md fileName)"
    unfolding r_def by (intro impI post_record_id)
  have over: "\<forall>v. data m ''id'' = Some v \<longrightarrow> r ''id'' = Some v"
    unfolding r_def by (intro allI impI post_record_src)
  show ?thesis
  proof (intro exI [of _ ps] exI [of _ r] conjI)
    show "getAllPostIds e fs = Inr ps" by (fact ids)
    show "strip_md fileName \<in> set (map (\<lambda>p. id' (params p)) ps)" by (fact listed)
    show "fst (getPostData e fs (strip_md fileName) c) = Inr r" by (fact run)
    show "data m ''id'' = None \<longrightarrow> r ''id'' = Some (strip_md fileName)" by (fact own)
    show "\<forall>v. data m ''id'' = Some v \<longrightarrow> r ''id'' = Some v" by (fact over)
  qed
qed

theorem getPostData_of_listed_file_witness:
  "readdirSync blog_fs (postsDirectory ref_env) = Inr [''first.md'', ''third.md'', ''second.md'']
   \<and> ends_with_md ''first.md''
   \<and> field ''id'' (fst (getPostData ref_env blog_fs ''first'' Map.empty)) = Inr (Some ''first'')"
proof -
  define m where
    "m = \<lparr>data = [''title'' \<mapsto> ''T'', ''date'' \<mapsto> ''2024-01-01''], content = ''# Hi''\<rparr>"
  have entry: "''first.md'' \<in> set [''first.md'', ''third.md'', ''second.md'']" by simp
  have md: "ends_with_md ''first.md''" by (simp add: ends_with_md_def)
  have parsed: "fst (matter ref_env (post_text ''T'' ''2024-01-01'' ''# Hi'') Map.empty) = Inr m"
    unfolding m_def by (rule matter_first)
  have rendered: "remark ref_env [Html (Some \<lparr>sanitize = False\<rparr>), Prism] (content m)
                    = Inr (''<h1>Hi</h1>'' @ [nl])"
    using remark_heading by (simp add: m_def ref_env_def)
  from getPostData_of_listed_file [OF readdir_blog entry md read_first parsed rendered]
  obtain r where run: "fst (getPostData ref_env blog_fs (strip_md ''first.md'') Map.empty) = Inr r"
    and own: "data m ''id'' = None \<longrightarrow> r ''id'' = Some (strip_md ''first.md'')"
    by (elim exE conjE)
  have "data m ''id'' = None" by (simp add: m_def)
  with own have "r ''id'' = Some (strip_md ''first.md'')" by simp
  with run
  have "field ''id'' (fst (getPostData ref_env blog_fs ''first'' Map.empty)) = Inr (Some ''first'')"
    by (simp add: field_def strip_md_def ends_with_md_def)
  with readdir_blog md show ?thesis by simp
qed

text \<open>
  The claim as stated fails twice over. The entry \<^verbatim>\<open>notes.txt\<close> yields the identifier
  \<^verbatim>\<open>notes.txt\<close>, for which \<open>getPostData\<close> looks for \<^verbatim>\<open>notes.txt.md\<close> and fails; and the post
  \<^verbatim>\<open>own-id.md\<close>, whose front matter says \<^verbatim>\<open>id: other\<close>, comes back with that \<^verbatim>\<open>id\<close>.
\<close>

theorem getPostData_unlisted_or_renamed:
  "ids_of (getAllPostIds ref_env stray_fs) = Inr [''notes.txt'', ''own-id'']
   \<and> fst (getPostData ref_env stray_fs ''notes.txt'' Map.empty)
       = Inl (FsError ENOENT ''/site/posts/notes.txt.md'')
   \<and> field ''id'' (fst (getPostData ref_env stray_fs ''own-id'' Map.empty)) = Inr (Some ''other'')"
  by (simp add: run_defs stray_fs_def)




text \<open>
  C5 (as amended). \<open>getAboutPageData\<close> renders the body with the \<^verbatim>\<open>html\<close> plugin alone and
  without an options object: the \<^verbatim>\<open>contentHtml\<close> it returns is what the renderer produces
  under that configuration, a failure of the renderer there is the failure of the call,
  and what the renderer would do under any other configuration, \<^verbatim>\<open>sanitize: false\<close>
  included, has no influence on the result.
\<close>

theorem getAboutPageData_html_defaults:
  assumes readable: "readFileSync fs (path_join (aboutPageDirectory e) ''about.md'') = Inr txt"
    and parsed: "fst (matter e txt c) = Inr m"
  shows "(\<forall>h. remark e [Html None] (content m) = Inr h \<longrightarrow>
            (\<exists>r. fst (getAboutPageData e fs c) = Inr r
               \<and> (data m ''contentHtml'' = None \<longrightarrow> r ''contentHtml'' = Some h)))
       \<and> (\<forall>msg. remark e [Html None] (content m) = Inl msg \<longrightarrow>
            fst (getAboutPageData e fs c) = Inl (RemarkError msg))
       \<and> (\<forall>rm. rm [Html None] = remark e [Html None] \<longrightarrow>
            getAboutPageData (e\<lparr>remark := rm\<rparr>) fs c = getAboutPageData e fs c)"
proof (intro conjI allI impI)
  fix h assume "remark e [Html None] (content m) = Inr h"
  with readable parsed
  have "getAboutPageData e fs c
          = (Inr (spread [''contentHtml'' \<mapsto> h] (data m)), snd (matter e txt c))"
    by (rule getAboutPageData_success)
  then show "\<exists>r. fst (getAboutPageData e fs c) = Inr r
               \<and> (data m ''contentHtml'' = None \<longrightarrow> r ''contentHtml'' = Some h)"
    by (simp add: about_record_html)
next
  fix msg assume "remark e [Html None] (content m) = Inl msg"
  with readable parsed show "fst (getAboutPageData e fs c) = Inl (RemarkError msg)"
    by (cases "matter e txt c") (simp add: getAboutPageData_def call_remark_def)
next
  fix rm assume "rm [Html None] = remark e [Html None]"
  then show "getAboutPageData (e\<lparr>remark := rm\<rparr>) fs c = getAboutPageData e fs c"
    by (rule getAboutPageData_update)
qed

theorem getAboutPageData_html_defaults_witness:
  "readFileSync blog_fs (path_join (aboutPageDirectory ref_env) ''about.md'')
     = Inr (join_lines [''---'', ''title: About'', ''---'', ''<div>raw</div>''])
   \<and> field ''contentHtml'' (fst (getAboutPageData ref_env blog_fs Map.empty)) = Inr (Some [])
   \<and> getAboutPageData (ref_env\<lparr>remark := (pinned_remark [Html None])\<rparr>) blog_fs Map.empty
       = getAboutPageData ref_env blog_fs Map.empty"
proof -
  define m where "m = \<lparr>data = [''title'' \<mapsto> ''About''], content = ''<div>raw</div>''\<rparr>"
  have parsed: "fst (matter ref_env (join_lines [''---'', ''title: About'', ''---'', ''<div>raw</div>''])
                  Map.empty) = Inr m"
    unfolding m_def by (rule matter_about)
  have rendered: "remark ref_env [Html None] (content m) = Inr []"
    using remark_about by (simp add: m_def)
  have agree: "pinned_remark [Html None] [Html None] = remark ref_env [Html None]"
    by (rule ext) (simp add: pinned_remark_def ref_env_def)
  note facts = getAboutPageData_html_defaults [OF read_about parsed]
  from facts [THEN conjunct1, rule_format, OF rendered]
  obtain r where run: "fst (getAboutPageData ref_env blog_fs Map.empty) = Inr r"
    and own: "data m ''contentHtml'' = None \<longrightarrow> r ''contentHtml'' = Some []"
    by (elim exE conjE)
  have "data m ''contentHtml'' = None" by (simp add: m_def)
  with own run
  have one: "field ''contentHtml'' (fst (getAboutPageData ref_env blog_fs Map.empty)) = Inr (Some [])"
    by (simp add: field_def)
  from facts [THEN conjunct2, THEN conjunct2, THEN spec [of _ "pinned_remark [Html None]"], THEN mp, OF agree]
  have two: "getAboutPageData (ref_env\<lparr>remark := (pinned_remark [Html None])\<rparr>) blog_fs Map.empty
       = getAboutPageData ref_env blog_fs Map.empty" .
  from read_about one two show ?thesis by (intro conjI)
qed

text \<open>
  The claim as stated fails with a renderer that sanitizes unless told otherwise, as
  \<^verbatim>\<open>remark-html\<close> does: the raw HTML of the about page is dropped, while the same body
  rendered with \<^verbatim>\<open>sanitize: false\<close>, and the post with this body, keep it.
\<close>

theorem getAboutPageData_drops_raw_html:
  "field ''contentHtml'' (fst (getAboutPageData ref_env blog_fs Map.empty)) = Inr (Some [])
   \<and> remark ref_env [Html (Some \<lparr>sanitize = False\<rparr>)] ''<div>raw</div>''
       = Inr (''<div>raw</div>'' @ [nl])
   \<and> field ''contentHtml'' (fst (getPostData ref_env blog_fs ''second'' Map.empty))
       = Inr (Some (''<div>raw</div>'' @ [nl]))"
  by (simp add: run_defs blog_fs_def)

text \<open>
  C6 (as amended). When the file at \<^verbatim>\<open>path.join(postsDirectory, id + ".md")\<close> is readable,
  its front matter parses, and the body renders under \<^verbatim>\<open>html\<close> with \<^verbatim>\<open>sanitize: false\<close>
  followed by \<^verbatim>\<open>prism\<close>, \<open>getPostData\<close> returns a record that holds every front-matter
  field, the identifier under \<^verbatim>\<open>id\<close> and the rendered HTML under \<^verbatim>\<open>contentHtml\<close> unless the
  front matter declares these keys itself, and nothing else. No other configuration of the
  renderer has any influence on the result.
\<close>

theorem getPostData_record:
  assumes readable: "readFileSync fs (path_join (postsDirectory e) (pid @ ''.md'')) = Inr txt"
    and parsed: "fst (matter e txt c) = Inr m"
    and rendered: "remark e [Html (Some \<lparr>sanitize = False\<rparr>), Prism] (content m) = Inr h"
  shows "(\<exists>r. fst (getPostData e fs pid c) = Inr r
          \<and> (\<forall>k v. data m k = Some v \<longrightarrow> r k = Some v)
          \<and> (data m ''id'' = None \<longrightarrow> r ''id'' = Some pid)
          \<and> (data m ''contentHtml'' = None \<longrightarrow> r ''contentHtml'' = Some h)
          \<and> dom r = {''id'', ''contentHtml''} \<union> dom (data m))
       \<and> (\<forall>rm. rm [Html (Some \<lparr>sanitize = False\<rparr>), Prism]
                  = remark e [Html (Some \<lparr>sanitize = False\<rparr>), Prism] \<longrightarrow>
             getPostData (e\<lparr>remark := rm\<rparr>) fs pid c = getPostData e fs pid c)"
proof (intro conjI allI impI)
  define r where "r = spread [''id'' \<mapsto> pid, ''contentHtml'' \<mapsto> h] (data m)"
  from getPostData_success [OF readable parsed rendered]
  have run: "fst (getPostData e fs pid c) = Inr r"
    unfolding r_def by simp
  show "\<exists>r. fst (getPostData e fs pid c) = Inr r
          \<and> (\<forall>k v. data m k = Some v \<longrightarrow> r k = Some v)
          \<and> (data m ''id'' = None \<longrightarrow> r ''id'' = Some pid)
          \<and> (data m ''contentHtml'' = None \<longrightarrow> r ''contentHtml'' = Some h)
          \<and> dom r = {''id'', ''contentHtml''} \<union> dom (data m)"
  proof (intro exI [of _ r] conjI)
    show "fst (getPostData e fs pid c) = Inr r" by (fact run)
    show "\<forall>k v. data m k = Some v \<longrightarrow> r k = Some v"
      unfolding r_def by (intro allI impI post_record_src)
    show "data m ''id'' = None \<longrightarrow> r ''id'' = Some pid"
      unfolding r_def by (intro impI post_record_id)
    show "data m ''contentHtml'' = None \<longrightarrow> r ''contentHtml'' = Some h"
      unfolding r_def by (intro impI post_record_html)
    show "dom r = {''id'', ''contentHtml''} \<union> dom (data m)"
      unfolding r_def by (rule post_record_dom)
  qed
next
  fix rm
  assume "rm [Html (Some \<lparr>sanitize = False\<rparr>), Prism]
            = remark e [Html (Some \<lparr>sanitize = False\<rparr>), Prism]"
  then show "getPostData (e\<lparr>remark := rm\<rparr>) fs pid c = getPostData e fs pid c"
    by (rule getPostData_update)
qed

theorem getPostData_record_witness:
  "readFileSync blog_fs (path_join (postsDirectory ref_env) (''first'' @ ''.md''))
     = Inr (post_text ''T'' ''2024-01-01'' ''# Hi'')
   \<and> field ''id'' (fst (getPostData ref_env blog_fs ''first'' Map.empty)) = Inr (Some ''first'')
   \<and> field ''contentHtml'' (fst (getPostData ref_env blog_fs ''first'' Map.empty))
       = Inr (Some (''<h1>Hi</h1>'' @ [nl]))
   \<and> field ''title'' (fst (getPostData ref_env blog_fs ''first'' Map.empty)) = Inr (Some ''T'')
   \<and> getPostData (ref_env\<lparr>remark := pinned_remark [Html (Some \<lparr>sanitize = False\<rparr>), Prism]\<rparr>)
         blog_fs ''first'' Map.empty
       = getPostData ref_env blog_fs ''first'' Map.empty"
proof -
  define m where
    "m = \<lparr>data = [''title'' \<mapsto> ''T'', ''date'' \<mapsto> ''2024-01-01''], content = ''# Hi''\<rparr>"
  have parsed: "fst (matter ref_env (post_text ''T'' ''2024-01-01'' ''# Hi'') Map.empty) = Inr m"
    unfolding m_def by (rule matter_first)
  have rendered: "remark ref_env [Html (Some \<lparr>sanitize = False\<rparr>), Prism] (content m)
                    = Inr (''<h1>Hi</h1>'' @ [nl])"
    using remark_heading by (simp add: m_def ref_env_def)
  have agree: "pinned_remark [Html (Some \<lparr>sanitize = False\<rparr>), Prism]
                 [Html (Some \<lparr>sanitize = False\<rparr>), Prism]
               = remark ref_env [Html (Some \<lparr>sanitize = False\<rparr>), Prism]"
    by (rule ext) (simp add: pinned_remark_def ref_env_def)
  note facts = getPostData_record [OF read_first_id parsed rendered]
  from facts [THEN conjunct1]
  obtain r where run: "fst (getPostData ref_env blog_fs ''first'' Map.empty) = Inr r"
    and meta: "\<forall>k v. data m k = Some v \<longrightarrow> r k = Some v"
    and own_id: "data m ''id'' = None \<longrightarrow> r ''id'' = Some ''first''"
    and own_html: "data m ''contentHtml'' = None \<longrightarrow> r ''contentHtml'' = Some (''<h1>Hi</h1>'' @ [nl])"
    by (elim exE conjE)
  have "data m ''id'' = None" "data m ''contentHtml'' = None" "data m ''title'' = Some ''T''"
    by (simp_all add: m_def)
  with meta own_id own_html
  have "r ''id'' = Some ''first''" "r ''contentHtml'' = Some (''<h1>Hi</h1>'' @ [nl])"
    "r ''title'' = Some ''T''"
    by simp_all
  with run have fields:
    "field ''id'' (fst (getPostData ref_env blog_fs ''first'' Map.empty)) = Inr (Some ''first'')"
    "field ''contentHtml'' (fst (getPostData ref_env blog_fs ''first'' Map.empty))
       = Inr (Some (''<h1>Hi</h1>'' @ [nl]))"
    "field ''title'' (fst (getPostData ref_env blog_fs ''first'' Map.empty)) = Inr (Some ''T'')"
    by (simp_all add: field_def)
  from facts [THEN conjunct2,
      THEN spec [of _ "pinned_remark [Html (Some \<lparr>sanitize = False\<rparr>), Prism]"], THEN mp, OF agree]
  have same: "getPostData (ref_env\<lparr>remark := pinned_remark [Html (Some \<lparr>sanitize = False\<rparr>), Prism]\<rparr>)
         blog_fs ''first'' Map.empty
       = getPostData ref_env blog_fs ''first'' Map.empty" .
  from read_first_id fields same show ?thesis by (intro conjI)
qed

text \<open>
  The claim as stated fails for a post whose front matter declares \<^verbatim>\<open>id\<close> and
  \<^verbatim>\<open>contentHtml\<close>: the record holds the declared values, not the identifier and not the
  HTML rendered from the body.
\<close>

theorem getPostData_front_matter_replaces_fields:
  "field ''id'' (fst (getPostData ref_env stray_fs ''own-id'' Map.empty)) = Inr (Some ''other'')
   \<and> field ''contentHtml'' (fst (getPostData ref_env stray_fs ''own-id'' Map.empty)) = Inr (Some ''mine'')
   \<and> remark ref_env [Html (Some \<lparr>sanitize = False\<rparr>), Prism] ''Body'' = Inr (''<p>Body</p>'' @ [nl])"
  by (simp add: run_defs stray_fs_def)






text \<open>
  C9. \<open>getSortedPostsData\<close> does not depend on the renderer: replacing it by any other,
  even one that always throws, leaves the result and the cache as they are. Every record
  returned is \<^verbatim>\<open>{ id, ...data }\<close> for an entry of the posts directory, \<open>data\<close> being what
  \<open>matter\<close> answers for the entry's text when its turn comes: its keys are \<^verbatim>\<open>id\<close> and
  those of the front matter, and it has a \<^verbatim>\<open>contentHtml\<close> only if the front matter declares
  one.
\<close>

theorem getSortedPostsData_metadata_only:
  "getSortedPostsData (e\<lparr>remark := rm\<rparr>) fs c = getSortedPostsData e fs c
   \<and> (fst (getSortedPostsData e fs c) = Inr rs \<longrightarrow>
        (\<forall>r \<in> set rs. \<exists>fileNames fileName txt m c1.
            readdirSync fs (postsDirectory e) = Inr fileNames
            \<and> fileName \<in> set fileNames
            \<and> readFileSync fs (path_join (postsDirectory e) fileName) = Inr txt
            \<and> grows e c c1
            \<and> fst (matter e txt c1) = Inr m
            \<and> r = spread [''id'' \<mapsto> strip_md fileName] (data m)
            \<and> dom r = insert ''id'' (dom (data m))
            \<and> r ''contentHtml'' = data m ''contentHtml''))"
proof (intro conjI impI ballI)
  show "getSortedPostsData (e\<lparr>remark := rm\<rparr>) fs c = getSortedPostsData e fs c"
    by (simp add: getSortedPostsData_update)
next
  fix r assume run: "fst (getSortedPostsData e fs c) = Inr rs" and r: "r \<in> set rs"
  from run obtain fileNames us where listing: "readdirSync fs (postsDirectory e) = Inr fileNames"
    and us: "fst (array_map (post_summary e fs) fileNames c) = Inr us"
    and rs: "rs = array_sort compare_date us"
    unfolding getSortedPostsData_Inr by (elim exE conjE)
  from r rs have "r \<in> set us" by (simp add: set_array_sort)
  from summaries_origin [OF us this] obtain fileName c1 where entry: "fileName \<in> set fileNames"
    and reached: "grows e c c1"
    and one: "fst (post_summary e fs fileName c1) = Inr r"
    by (elim bexE exE conjE)
  from post_summary_Inr [OF one] obtain fileContents m
    where readable: "readFileSync fs (path_join (postsDirectory e) fileName) = Inr fileContents"
      and parsed: "fst (matter e fileContents c1) = Inr m"
      and shape: "r = spread [''id'' \<mapsto> strip_md fileName] (data m)"
    by (elim exE conjE)
  have d: "dom r = insert ''id'' (dom (data m))"
    unfolding shape by (rule summary_record_dom)
  have h: "r ''contentHtml'' = data m ''contentHtml''"
    unfolding shape by (rule summary_record_html)
  from listing entry readable reached parsed shape d h
  show "\<exists>fileNames fileName txt m c1.
            readdirSync fs (postsDirectory e) = Inr fileNames
            \<and> fileName \<in> set fileNames
            \<and> readFileSync fs (path_join (postsDirectory e) fileName) = Inr txt
            \<and> grows e c c1
            \<and> fst (matter e txt c1) = Inr m
            \<and> r = spread [''id'' \<mapsto> strip_md fileName] (data m)
            \<and> dom r = insert ''id'' (dom (data m))
            \<and> r ''contentHtml'' = data m ''contentHtml''"
    by (intro exI conjI)
qed

theorem getSortedPostsData_metadata_only_witness:
  "getSortedPostsData (ref_env\<lparr>remark := failing_remark\<rparr>) blog_fs Map.empty
     = getSortedPostsData ref_env blog_fs Map.empty
   \<and> column ''contentHtml'' (fst (getSortedPostsData ref_env blog_fs Map.empty))
       = Inr [None, None, None]"
proof -
  from column_InrD [OF sorted_blog] obtain rs
    where run: "fst (getSortedPostsData ref_env blog_fs Map.empty) = Inr rs"
      and dates: "map (\<lambda>r. r ''date'') rs
                    = [Some ''2024-03-01'', Some ''2024-02-01'', Some ''2024-01-01'']"
    by (elim exE conjE)
  note facts = getSortedPostsData_metadata_only
    [where e = ref_env and rm = failing_remark and fs = blog_fs and rs = rs and c = Map.empty]
  have one: "getSortedPostsData (ref_env\<lparr>remark := failing_remark\<rparr>) blog_fs Map.empty
     = getSortedPostsData ref_env blog_fs Map.empty"
    by (rule facts [THEN conjunct1])
  have none: "r ''contentHtml'' = None" if "r \<in> set rs" for r
  proof -
    from facts [THEN conjunct2, THEN mp, OF run, THEN bspec, OF that]
    obtain fileNames fileName fileContents m c1
      where "readdirSync blog_fs (postsDirectory ref_env) = Inr fileNames"
        and "fileName \<in> set fileNames"
        and readable: "readFileSync blog_fs (path_join (postsDirectory ref_env) fileName)
                         = Inr fileContents"
        and reached: "grows ref_env Map.empty c1"
        and parsed: "fst (matter ref_env fileContents c1) = Inr m"
        and same: "r ''contentHtml'' = data m ''contentHtml''"
      by (elim exE conjE)
    with readdir_blog
    have "fileName = ''first.md'' \<or> fileName = ''third.md'' \<or> fileName = ''second.md''"
      by simp
    then have "data m ''contentHtml'' = None"
    proof (elim disjE)
      assume "fileName = ''first.md''"
      with readable read_first have "fileContents = post_text ''T'' ''2024-01-01'' ''# Hi''"
        by simp
      with parsed matter_stable [OF matter_first reached]
      have "m = \<lparr>data = [''title'' \<mapsto> ''T'', ''date'' \<mapsto> ''2024-01-01''], content = ''# Hi''\<rparr>"
        by simp
      then show ?thesis by simp
    next
      assume "fileName = ''third.md''"
      with readable read_third have "fileContents = post_text ''Third'' ''2024-03-01'' ''Some text''"
        by simp
      with parsed matter_stable [OF matter_third reached]
      have "m = \<lparr>data = [''title'' \<mapsto> ''Third'', ''date'' \<mapsto> ''2024-03-01''],
                 content = ''Some text''\<rparr>"
        by simp
      then show ?thesis by simp
    next
      assume "fileName = ''second.md''"
      with readable read_second
      have "fileContents = post_text ''Second'' ''2024-02-01'' ''<div>raw</div>''"
        by simp
      with parsed matter_stable [OF matter_second reached]
      have "m = \<lparr>data = [''title'' \<mapsto> ''Second'', ''date'' \<mapsto> ''2024-02-01''],
                 content = ''<div>raw</div>''\<rparr>"
        by simp
      then show ?thesis by simp
    qed
    with same show ?thesis by simp
  qed
  from arg_cong [OF dates, of length] have "length rs = Suc (Suc (Suc 0))"
    by simp
  then obtain a b c where rs: "rs = [a, b, c]"
    by (auto simp: length_Suc_conv)
  with none have "map (\<lambda>r. r ''contentHtml'') rs = [None, None, None]" by simp
  with run
  have "column ''contentHtml'' (fst (getSortedPostsData ref_env blog_fs Map.empty))
          = Inr [None, None, None]"
    by (simp add: column_def)
  with one show ?thesis by (intro conjI)
qed

text \<open>
  C10. The front matter is spread after the derived fields, so each record is the front
  matter with the derived fields filled in where the front matter is silent. In
  \<open>getPostData\<close> the \<^verbatim>\<open>id\<close> is the front matter's if it declares one and the identifier
  asked for otherwise, the \<^verbatim>\<open>contentHtml\<close> is the front matter's if it declares one and the
  rendered HTML otherwise, and every other field is the front matter's. In
  \<open>getAboutPageData\<close> the same holds of \<^verbatim>\<open>contentHtml\<close>, the only derived field, and in
  \<open>getSortedPostsData\<close> of \<^verbatim>\<open>id\<close>, the only derived field there, in the record of each
  listed file.
\<close>

theorem front_matter_overrides_derived_fields:
  assumes parsed: "fst (matter e txt c) = Inr m"
  shows "(readFileSync fs (path_join (postsDirectory e) (pid @ ''.md'')) = Inr txt \<longrightarrow>
          remark e [Html (Some \<lparr>sanitize = False\<rparr>), Prism] (content m) = Inr h \<longrightarrow>
            (\<exists>r. fst (getPostData e fs pid c) = Inr r
               \<and> (\<forall>v. data m ''id'' = Some v \<longrightarrow> r ''id'' = Some v)
               \<and> (data m ''id'' = None \<longrightarrow> r ''id'' = Some pid)
               \<and> (\<forall>v. data m ''contentHtml'' = Some v \<longrightarrow> r ''contentHtml'' = Some v)
               \<and> (data m ''contentHtml'' = None \<longrightarrow> r ''contentHtml'' = Some h)
               \<and> (\<forall>k. k \<noteq> ''id'' \<longrightarrow> k \<noteq> ''contentHtml'' \<longrightarrow> r k = data m k)))
       \<and> (readFileSync fs (path_join (aboutPageDirectory e) ''about.md'') = Inr txt \<longrightarrow>
          remark e [Html None] (content m) = Inr h' \<longrightarrow>
            (\<exists>r. fst (getAboutPageData e fs c) = Inr r
               \<and> (\<forall>v. data m ''contentHtml'' = Some v \<longrightarrow> r ''contentHtml'' = Some v)
               \<and> (data m ''contentHtml'' = None \<longrightarrow> r ''contentHtml'' = Some h')
               \<and> (\<forall>k. k \<noteq> ''contentHtml'' \<longrightarrow> r k = data m k)))
       \<and> (readdirSync fs (postsDirectory e) = Inr fileNames \<longrightarrow>
          fileName \<in> set fileNames \<longrightarrow>
          readFileSync fs (path_join (postsDirectory e) fileName) = Inr txt \<longrightarrow>
          fst (getSortedPostsData e fs c) = Inr rs \<longrightarrow>
            (\<exists>r \<in> set rs. r = spread [''id'' \<mapsto> strip_md fileName] (data m)
               \<and> (\<forall>v. data m ''id'' = Some v \<longrightarrow> r ''id'' = Some v)
               \<and> (data m ''id'' = None \<longrightarrow> r ''id'' = Some (strip_md fileName))
               \<and> (\<forall>k. k \<noteq> ''id'' \<longrightarrow> r k = data m k)))"
proof (intro conjI impI)
  assume readable: "readFileSync fs (path_join (postsDirectory e) (pid @ ''.md'')) = Inr txt"
    and rendered: "remark e [Html (Some \<lparr>sanitize = False\<rparr>), Prism] (content m) = Inr h"
  define r where "r = spread [''id'' \<mapsto> pid, ''contentHtml'' \<mapsto> h] (data m)"
  from getPostData_success [OF readable parsed rendered]
  have run: "fst (getPostData e fs pid c) = Inr r"
    unfolding r_def by simp
  show "\<exists>r. fst (getPostData e fs pid c) = Inr r
               \<and> (\<forall>v. data m ''id'' = Some v \<longrightarrow> r ''id'' = Some v)
               \<and> (data m ''id'' = None \<longrightarrow> r ''id'' = Some pid)
               \<and> (\<forall>v. data m ''contentHtml'' = Some v \<longrightarrow> r ''contentHtml'' = Some v)
               \<and> (data m ''contentHtml'' = None \<longrightarrow> r ''contentHtml'' = Some h)
               \<and> (\<forall>k. k \<noteq> ''id'' \<longrightarrow> k \<noteq> ''contentHtml'' \<longrightarrow> r k = data m k)"
  proof (intro exI [of _ r] conjI)
    show "fst (getPostData e fs pid c) = Inr r" by (fact run)
    show "\<forall>v. data m ''id'' = Some v \<longrightarrow> r ''id'' = Some v"
      unfolding r_def by (intro allI impI post_record_src)
    show "data m ''id'' = None \<longrightarrow> r ''id'' = Some pid"
      unfolding r_def by (intro impI post_record_id)
    show "\<forall>v. data m ''contentHtml'' = Some v \<longrightarrow> r ''contentHtml'' = Some v"
      unfolding r_def by (intro allI impI post_record_src)
    show "data m ''contentHtml'' = None \<longrightarrow> r ''contentHtml'' = Some h"
      unfolding r_def by (intro impI post_record_html)
    show "\<forall>k. k \<noteq> ''id'' \<longrightarrow> k \<noteq> ''contentHtml'' \<longrightarrow> r k = data m k"
      unfolding r_def by (intro allI impI post_record_rest)
  qed
next
  assume readable: "readFileSync fs (path_join (aboutPageDirectory e) ''about.md'') = Inr txt"
    and rendered: "remark e [Html None] (content m) = Inr h'"
  define r where "r = spread [''contentHtml'' \<mapsto> h'] (data m)"
  from getAboutPageData_success [OF readable parsed rendered]
  have run: "fst (getAboutPageData e fs c) = Inr r"
    unfolding r_def by simp
  show "\<exists>r. fst (getAboutPageData e fs c) = Inr r
               \<and> (\<forall>v. data m ''contentHtml'' = Some v \<longrightarrow> r ''contentHtml'' = Some v)
               \<and> (data m ''contentHtml'' = None \<longrightarrow> r ''contentHtml'' = Some h')
               \<and> (\<forall>k. k \<noteq> ''contentHtml'' \<longrightarrow> r k = data m k)"
  proof (intro exI [of _ r] conjI)
    show "fst (getAboutPageData e fs c) = Inr r" by (fact run)
    show "\<forall>v. data m ''contentHtml'' = Some v \<longrightarrow> r ''contentHtml'' = Some v"
      unfolding r_def by (intro allI impI post_record_src)
    show "data m ''contentHtml'' = None \<longrightarrow> r ''contentHtml'' = Some h'"
      unfolding r_def by (intro impI about_record_html)
    show "\<forall>k. k \<noteq> ''contentHtml'' \<longrightarrow> r k = data m k"
      unfolding r_def by (intro allI impI about_record_rest)
  qed
next
  assume listing: "readdirSync fs (postsDirectory e) = Inr fileNames"
    and entry: "fileName \<in> set fileNames"
    and readable: "readFileSync fs (path_join (postsDirectory e) fileName) = Inr txt"
    and run: "fst (getSortedPostsData e fs c) = Inr rs"
  define r where "r = spread [''id'' \<mapsto> strip_md fileName] (data m)"
  from run listing obtain us where us: "fst (array_map (post_summary e fs) fileNames c) = Inr us"
    and rs: "rs = array_sort compare_date us"
    unfolding getSortedPostsData_Inr by (elim exE conjE) simp
  from summaries_member [OF us entry] obtain y c1 where y: "y \<in> set us"
    and reached: "grows e c c1"
    and one: "fst (post_summary e fs fileName c1) = Inr y"
    by (elim bexE exE conjE)
  from parsed reached have "fst (matter e txt c1) = Inr m" by (rule matter_stable)
  with readable have "post_summary e fs fileName c1 = (Inr r, snd (matter e txt c1))"
    unfolding r_def by (rule post_summary_success)
  with one have "y = r" by simp
  with y rs have member: "r \<in> set rs" by (simp add: set_array_sort)
  have over: "\<forall>v. data m ''id'' = Some v \<longrightarrow> r ''id'' = Some v"
    unfolding r_def by (intro allI impI post_record_src)
  have own: "data m ''id'' = None \<longrightarrow> r ''id'' = Some (strip_md fileName)"
    unfolding r_def by (intro impI summary_record_id)
  have rest: "\<forall>k. k \<noteq> ''id'' \<longrightarrow> r k = data m k"
    unfolding r_def by (intro allI impI summary_record_rest)
  from member r_def over own rest
  show "\<exists>r \<in> set rs. r = spread [''id'' \<mapsto> strip_md fileName] (data m)
               \<and> (\<forall>v. data m ''id'' = Some v \<longrightarrow> r ''id'' = Some v)
               \<and> (data m ''id'' = None \<longrightarrow> r ''id'' = Some (strip_md fileName))
               \<and> (\<forall>k. k \<noteq> ''id'' \<longrightarrow> r k = data m k)"
    by (intro bexI [of _ r] conjI)
qed

theorem front_matter_overrides_derived_fields_witness:
  "field ''id'' (fst (getPostData ref_env stray_fs ''own-id'' Map.empty)) = Inr (Some ''other'')
   \<and> field ''contentHtml'' (fst (getPostData ref_env stray_fs ''own-id'' Map.empty))
       = Inr (Some ''mine'')
   \<and> field ''date'' (fst (getPostData ref_env stray_fs ''own-id'' Map.empty))
       = Inr (Some ''2024-05-05'')
   \<and> field ''id'' (fst (getPostData ref_env blog_fs ''first'' Map.empty)) = Inr (Some ''first'')
   \<and> field ''contentHtml'' (fst (getPostData ref_env blog_fs ''first'' Map.empty))
       = Inr (Some (''<h1>Hi</h1>'' @ [nl]))
   \<and> field ''contentHtml'' (fst (getAboutPageData ref_env stray_fs Map.empty)) = Inr (Some ''mine'')
   \<and> field ''contentHtml'' (fst (getAboutPageData ref_env blog_fs Map.empty)) = Inr (Some [])
   \<and> field ''title'' (fst (getAboutPageData ref_env blog_fs Map.empty)) = Inr (Some ''About'')
   \<and> column ''id'' (fst (getSortedPostsData ref_env stray_fs Map.empty))
       = Inr [Some ''other'', Some ''notes.txt'']"
proof -
  define m where
    "m = \<lparr>data = [''id'' \<mapsto> ''other'', ''contentHtml'' \<mapsto> ''mine'', ''date'' \<mapsto> ''2024-05-05''],
           content = ''Body''\<rparr>"
  define f where
    "f = \<lparr>data = [''title'' \<mapsto> ''T'', ''date'' \<mapsto> ''2024-01-01''], content = ''# Hi''\<rparr>"
  define a where "a = \<lparr>data = [''contentHtml'' \<mapsto> ''mine''], content = ''Body''\<rparr>"
  define b where "b = \<lparr>data = [''title'' \<mapsto> ''About''], content = ''<div>raw</div>''\<rparr>"
  define n where "n = \<lparr>data = (Map.empty :: jsobject), content = ''to do''\<rparr>"
  have declared: "data m ''id'' = Some ''other''" "data m ''contentHtml'' = Some ''mine''"
    "data m ''date'' = Some ''2024-05-05''" "data a ''contentHtml'' = Some ''mine''"
    by (simp_all add: m_def a_def)
  have silent: "data f ''id'' = None" "data f ''contentHtml'' = None"
    "data b ''contentHtml'' = None" "data b ''title'' = Some ''About''" "data n ''id'' = None"
    by (simp_all add: f_def b_def n_def)
  have parsed: "fst (matter ref_env own_id_text Map.empty) = Inr m"
    unfolding m_def by (rule matter_own_id)
  have parsed_first: "fst (matter ref_env (post_text ''T'' ''2024-01-01'' ''# Hi'') Map.empty) = Inr f"
    unfolding f_def by (rule matter_first)
  have parsed_about:
    "fst (matter ref_env (join_lines [''---'', ''contentHtml: mine'', ''---'', ''Body'']) Map.empty)
       = Inr a"
    unfolding a_def by (rule matter_stray_about)
  have parsed_blog_about:
    "fst (matter ref_env (join_lines [''---'', ''title: About'', ''---'', ''<div>raw</div>''])
       Map.empty) = Inr b"
    unfolding b_def by (rule matter_about)
  have parsed_notes: "fst (matter ref_env ''to do'' Map.empty) = Inr n"
    unfolding n_def by (rule matter_notes)
  have rendered: "remark ref_env [Html (Some \<lparr>sanitize = False\<rparr>), Prism] (content m)
                    = Inr (''<p>Body</p>'' @ [nl])"
    using remark_body by (simp add: m_def)
  have rendered_first: "remark ref_env [Html (Some \<lparr>sanitize = False\<rparr>), Prism] (content f)
                    = Inr (''<h1>Hi</h1>'' @ [nl])"
    using remark_heading by (simp add: f_def ref_env_def)
  have rendered_about: "remark ref_env [Html None] (content a) = Inr (''<p>Body</p>'' @ [nl])"
    using remark_stray_about by (simp add: a_def)
  have rendered_blog_about: "remark ref_env [Html None] (content b) = Inr []"
    using remark_about by (simp add: b_def)
  from column_InrD [OF sorted_stray] obtain rs
    where run: "fst (getSortedPostsData ref_env stray_fs Map.empty) = Inr rs"
      and ids: "map (\<lambda>r. r ''id'') rs = [Some ''other'', Some ''notes.txt'']"
    by (elim exE conjE)
  have entry: "''own-id.md'' \<in> set [''notes.txt'', ''own-id.md'']" by simp
  have entry_notes: "''notes.txt'' \<in> set [''notes.txt'', ''own-id.md'']" by simp
  note post = front_matter_overrides_derived_fields
    [OF parsed, where fs = stray_fs and pid = "''own-id''" and h = "''<p>Body</p>'' @ [nl]"
       and fileNames = "[''notes.txt'', ''own-id.md'']" and fileName = "''own-id.md''" and rs = rs]
  note first = front_matter_overrides_derived_fields
    [OF parsed_first, where fs = blog_fs and pid = "''first''" and h = "''<h1>Hi</h1>'' @ [nl]"]
  note about = front_matter_overrides_derived_fields
    [OF parsed_about, where fs = stray_fs and h' = "''<p>Body</p>'' @ [nl]"]
  note blog_about = front_matter_overrides_derived_fields
    [OF parsed_blog_about, where fs = blog_fs and h' = "[]"]
  note plain = front_matter_overrides_derived_fields
    [OF parsed_notes, where fs = stray_fs
       and fileNames = "[''notes.txt'', ''own-id.md'']" and fileName = "''notes.txt''" and rs = rs]
  from post [THEN conjunct1, THEN mp, THEN mp, OF read_own_id rendered]
  obtain r where "fst (getPostData ref_env stray_fs ''own-id'' Map.empty) = Inr r"
    and "\<forall>v. data m ''id'' = Some v \<longrightarrow> r ''id'' = Some v"
    and "\<forall>v. data m ''contentHtml'' = Some v \<longrightarrow> r ''contentHtml'' = Some v"
    and "\<forall>k. k \<noteq> ''id'' \<longrightarrow> k \<noteq> ''contentHtml'' \<longrightarrow> r k = data m k"
    by (elim exE conjE)
  with declared
  have one: "field ''id'' (fst (getPostData ref_env stray_fs ''own-id'' Map.empty))
               = Inr (Some ''other'')"
    and two: "field ''contentHtml'' (fst (getPostData ref_env stray_fs ''own-id'' Map.empty))
               = Inr (Some ''mine'')"
    and three: "field ''date'' (fst (getPostData ref_env stray_fs ''own-id'' Map.empty))
               = Inr (Some ''2024-05-05'')"
    by (simp_all add: field_def)
  from first [THEN conjunct1, THEN mp, THEN mp, OF read_first_id rendered_first]
  obtain r1 where "fst (getPostData ref_env blog_fs ''first'' Map.empty) = Inr r1"
    and "data f ''id'' = None \<longrightarrow> r1 ''id'' = Some ''first''"
    and "data f ''contentHtml'' = None \<longrightarrow> r1 ''contentHtml'' = Some (''<h1>Hi</h1>'' @ [nl])"
    by (elim exE conjE)
  with silent
  have four: "field ''id'' (fst (getPostData ref_env blog_fs ''first'' Map.empty))
                = Inr (Some ''first'')"
    and five: "field ''contentHtml'' (fst (getPostData ref_env blog_fs ''first'' Map.empty))
                = Inr (Some (''<h1>Hi</h1>'' @ [nl]))"
    by (simp_all add: field_def)
  from about [THEN conjunct2, THEN conjunct1, THEN mp, THEN mp, OF read_stray_about rendered_about]
  obtain r2 where "fst (getAboutPageData ref_env stray_fs Map.empty) = Inr r2"
    and "\<forall>v. data a ''contentHtml'' = Some v \<longrightarrow> r2 ''contentHtml'' = Some v"
    by (elim exE conjE)
  with declared
  have six: "field ''contentHtml'' (fst (getAboutPageData ref_env stray_fs Map.empty))
               = Inr (Some ''mine'')"
    by (simp add: field_def)
  from blog_about [THEN conjunct2, THEN conjunct1, THEN mp, THEN mp, OF read_about rendered_blog_about]
  obtain r3 where "fst (getAboutPageData ref_env blog_fs Map.empty) = Inr r3"
    and "data b ''contentHtml'' = None \<longrightarrow> r3 ''contentHtml'' = Some []"
    and "\<forall>k. k \<noteq> ''contentHtml'' \<longrightarrow> r3 k = data b k"
    by (elim exE conjE)
  with silent
  have seven: "field ''contentHtml'' (fst (getAboutPageData ref_env blog_fs Map.empty))
                 = Inr (Some [])"
    and eight: "field ''title'' (fst (getAboutPageData ref_env blog_fs Map.empty))
                 = Inr (Some ''About'')"
    by (simp_all add: field_def)
  from post [THEN conjunct2, THEN conjunct2, THEN mp, THEN mp, THEN mp, THEN mp,
             OF readdir_stray entry read_own_id_file run]
  obtain r4 where "r4 \<in> set rs"
    and "\<forall>v. data m ''id'' = Some v \<longrightarrow> r4 ''id'' = Some v"
    by (elim bexE conjE)
  with declared have "r4 ''id'' = Some ''other''" by simp
  from plain [THEN conjunct2, THEN conjunct2, THEN mp, THEN mp, THEN mp, THEN mp,
             OF readdir_stray entry_notes read_notes run]
  obtain r5 where "r5 \<in> set rs"
    and "data n ''id'' = None \<longrightarrow> r5 ''id'' = Some (strip_md ''notes.txt'')"
    by (elim bexE conjE)
  with silent have "r5 ''id'' = Some (strip_md ''notes.txt'')" by simp
  from run ids
  have nine: "column ''id'' (fst (getSortedPostsData ref_env stray_fs Map.empty))
                = Inr [Some ''other'', Some ''notes.txt'']"
    by (simp add: column_def)
  from one two three four five six seven eight nine show ?thesis by (intro conjI)
qed

end
